theory Spec2Isabelle
  imports Complex_Main "HOL-Library.Multiset" "HOL-Library.Sublist" "HOL-Library.AList"
    "HOL-Library.Log_Nat"
begin

section \<open>Data model (provider.go, judge file)\<close>

text \<open>
  Go strings are byte strings: \<open>string\<close> (a list of 8-bit \<open>char\<close>). A Go \<open>error\<close>
  value is modelled by its message, \<open>None\<close> being \<open>nil\<close>. Go \<open>int\<close> is 64 bit; the
  integers of this program are slice lengths, small sums of them and parsed scores, so
  they are modelled as \<open>int\<close>/\<open>nat\<close> (no operation below can wrap for a slice that fits
  in memory). \<open>time.Duration\<close> is an \<open>int\<close> of nanoseconds.
\<close>

record Citation =
  URL :: string
  Domain :: string
  Title :: string

record TokenUsage =
  Input :: int
  Output :: int

record Result =
  Text :: string
  Citations :: "Citation list"
  Duration :: int
  Tokens :: TokenUsage
  Error :: "string option"

text \<open>The interface \<open>Provider\<close>: the judge and the ranking only call the constant methods.\<close>

record Provider =
  Name :: string
  DisplayName :: string
  Emoji :: string

section \<open>Deduplicator (provider.go, DeduplicateCitations)\<close>

text \<open>
  \<open>seen\<close> is a Go \<open>map[string]bool\<close>: reading a missing key gives \<open>false\<close>. The state
  that the function mutates through its two reference arguments is the pair of the
  citation slice and the map.
\<close>

type_synonym seen_map = "string \<rightharpoonup> bool"

definition seen_at :: "seen_map \<Rightarrow> string \<Rightarrow> bool" where
  "seen_at seen k = (case seen k of None \<Rightarrow> False | Some b \<Rightarrow> b)"

definition DeduplicateCitations ::
  "Citation list \<times> seen_map \<Rightarrow> Citation \<Rightarrow> Citation list \<times> seen_map" where
  "DeduplicateCitations st c =
     (case st of (citations, seen) \<Rightarrow>
        if URL c \<noteq> '''' \<and> \<not> seen_at seen (URL c)
        then (citations @ [c], seen(URL c \<mapsto> True))
        else (citations, seen))"

text \<open>A provider adapter starts from an empty slice and an empty map and feeds every
  candidate of the raw response through the function.\<close>

definition dedup_feed :: "Citation list \<Rightarrow> Citation list \<times> seen_map" where
  "dedup_feed cs = foldl DeduplicateCitations ([], Map.empty) cs"

text \<open>The invariant kept by every call: the URLs marked seen include those collected,
  which are distinct and non-empty.\<close>

definition dedup_inv :: "Citation list \<times> seen_map \<Rightarrow> bool" where
  "dedup_inv st =
     (distinct (map URL (fst st)) \<and> '''' \<notin> set (map URL (fst st)) \<and>
      list_all (\<lambda>c. seen_at (snd st) (URL c)) (fst st))"

lemma dedup_inv_step: "dedup_inv st \<Longrightarrow> dedup_inv (DeduplicateCitations st c)"
  by (cases st) (auto simp: dedup_inv_def DeduplicateCitations_def seen_at_def list_all_iff)

lemma dedup_inv_foldl: "dedup_inv st \<Longrightarrow> dedup_inv (foldl DeduplicateCitations st cs)"
  by (induction cs arbitrary: st) (simp_all add: dedup_inv_step)

lemma dedup_inv_init: "dedup_inv ([], Map.empty)"
  by (simp add: dedup_inv_def)

lemma dedup_noop:
  "URL c = '''' \<or> seen_at (snd st) (URL c) \<Longrightarrow> DeduplicateCitations st c = st"
  by (cases st) (auto simp: DeduplicateCitations_def)

text \<open>
  C9. Fed from an empty collection and an empty seen-set, the Deduplicator yields a
  collection with pairwise distinct URLs and no empty URL; and in any state, a candidate
  whose URL is empty or already seen leaves the collection and the seen-set as they were.
\<close>

theorem dedup_feed_distinct_nonempty:
  "distinct (map URL (fst (dedup_feed cs))) \<and>
   '''' \<notin> set (map URL (fst (dedup_feed cs))) \<and>
   (\<forall>st c. URL c = '''' \<or> seen_at (snd st) (URL c) \<longrightarrow> DeduplicateCitations st c = st)"
proof -
  have "dedup_inv (dedup_feed cs)"
    unfolding dedup_feed_def by (rule dedup_inv_foldl [OF dedup_inv_init])
  then show ?thesis
    using dedup_noop by (simp add: dedup_inv_def)
qed

theorem dedup_feed_distinct_nonempty_witness:
  "fst (dedup_feed
      [\<lparr>URL = ''a'', Domain = '''', Title = ''x''\<rparr>,
       \<lparr>URL = '''', Domain = '''', Title = ''y''\<rparr>,
       \<lparr>URL = ''a'', Domain = '''', Title = ''z''\<rparr>]) =
     [\<lparr>URL = ''a'', Domain = '''', Title = ''x''\<rparr>] \<and>
   seen_at (snd (dedup_feed [\<lparr>URL = ''a'', Domain = '''', Title = ''x''\<rparr>])) ''a'' \<and>
   DeduplicateCitations (dedup_feed [\<lparr>URL = ''a'', Domain = '''', Title = ''x''\<rparr>])
      \<lparr>URL = ''a'', Domain = '''', Title = ''z''\<rparr> =
     dedup_feed [\<lparr>URL = ''a'', Domain = '''', Title = ''x''\<rparr>]"
proof -
  have seen: "seen_at (snd (dedup_feed [\<lparr>URL = ''a'', Domain = '''', Title = ''x''\<rparr>])) ''a''"
    by (simp add: dedup_feed_def DeduplicateCitations_def seen_at_def)
  have noop: "URL c = '''' \<or> seen_at (snd st) (URL c) \<Longrightarrow> DeduplicateCitations st c = st"
    for st c
    using dedup_feed_distinct_nonempty [of "[]"] by blast
  have "DeduplicateCitations (dedup_feed [\<lparr>URL = ''a'', Domain = '''', Title = ''x''\<rparr>])
      \<lparr>URL = ''a'', Domain = '''', Title = ''z''\<rparr> =
     dedup_feed [\<lparr>URL = ''a'', Domain = '''', Title = ''x''\<rparr>]"
    by (rule noop) (simp add: seen)
  moreover have "fst (dedup_feed
      [\<lparr>URL = ''a'', Domain = '''', Title = ''x''\<rparr>,
       \<lparr>URL = '''', Domain = '''', Title = ''y''\<rparr>,
       \<lparr>URL = ''a'', Domain = '''', Title = ''z''\<rparr>]) =
     [\<lparr>URL = ''a'', Domain = '''', Title = ''x''\<rparr>]"
    by (simp add: dedup_feed_def DeduplicateCitations_def seen_at_def)
  ultimately show ?thesis using seen by simp
qed

section \<open>Heuristic score (main file, calculateScore)\<close>

text \<open>
  \<open>calculateScore\<close> as it is in the sources takes a \<open>ModelResponse\<close>, whose \<open>WordCount\<close>
  its callers (\<open>runAllModels\<close>, \<open>runSingleModel\<close>) set to \<open>len(strings.Fields(Text))\<close>
  just before the call. The fields shared with \<open>Result\<close> carry the suffix \<open>_resp\<close>.
\<close>

record ModelResponse =
  ModelName :: string
  Text_resp :: string
  Citations_resp :: "Citation list"
  Duration_resp :: int
  Error_resp :: "string option"
  WordCount :: int
  Score_resp :: int

text \<open>Go's integer division truncates towards zero.\<close>

definition go_quot :: "int \<Rightarrow> int \<Rightarrow> int" where
  "go_quot a b = sgn a * sgn b * (\<bar>a\<bar> div \<bar>b\<bar>)"

definition calculateScore :: "ModelResponse \<Rightarrow> int" where
  "calculateScore resp =
     (if Error_resp resp \<noteq> None then 0
      else let citationScore = int (length (Citations_resp resp)) * 10;
               wordScore = min (go_quot (WordCount resp) 10) 50
           in citationScore + wordScore)"

text \<open>
  \<open>strings.Fields\<close> splits at runs of white space as \<open>unicode.IsSpace\<close> defines it. On
  the UTF-8 bytes of a Go string these are the six ASCII characters and the encodings of
  U+0085, U+00A0, U+1680, U+2000 to U+200A, U+2028, U+2029, U+202F, U+205F and U+3000;
  their lead bytes are never continuation bytes, so matching the byte patterns where they
  stand is what decoding rune by rune does. \<open>spaceWidth\<close> is the number of bytes of the
  white-space rune at the head of the string, 0 when there is none.
\<close>

definition asciiSpace :: "char \<Rightarrow> bool" where
  "asciiSpace c = (c \<in> {CHR 0x09, CHR 0x0A, CHR 0x0B, CHR 0x0C, CHR 0x0D, CHR 0x20})"

definition spaceWidth :: "string \<Rightarrow> nat" where
  "spaceWidth s =
     (case s of
        [] \<Rightarrow> 0
      | c # cs \<Rightarrow>
          if asciiSpace c then 1
          else if c = CHR 0xC2 \<and> (prefix [CHR 0x85] cs \<or> prefix [CHR 0xA0] cs) then 2
          else if c = CHR 0xE1 \<and> prefix [CHR 0x9A, CHR 0x80] cs then 3
          else if c = CHR 0xE2 \<and>
                  (list_ex (\<lambda>b. prefix [CHR 0x80, b] cs)
                     [CHR 0x80, CHR 0x81, CHR 0x82, CHR 0x83, CHR 0x84, CHR 0x85, CHR 0x86,
                      CHR 0x87, CHR 0x88, CHR 0x89, CHR 0x8A, CHR 0xA8, CHR 0xA9, CHR 0xAF] \<or>
                   prefix [CHR 0x81, CHR 0x9F] cs) then 3
          else if c = CHR 0xE3 \<and> prefix [CHR 0x80, CHR 0x80] cs then 3
          else 0)"

text \<open>The scan: \<open>k\<close> counts the bytes of a white-space rune still to be skipped,
  \<open>cur\<close> is the field being collected.\<close>

fun fields_from :: "nat \<Rightarrow> string \<Rightarrow> string \<Rightarrow> string list" where
  "fields_from k cur [] = (if cur = [] then [] else [cur])"
| "fields_from k cur (c # cs) =
     (if 0 < k then fields_from (k - 1) cur cs
      else if 0 < spaceWidth (c # cs)
           then (if cur = [] then [] else [cur]) @ fields_from (spaceWidth (c # cs) - 1) [] cs
      else fields_from 0 (cur @ [c]) cs)"

definition Fields :: "string \<Rightarrow> string list" where
  "Fields s = fields_from 0 [] s"

text \<open>The three statements around the call in \<open>runSingleModel\<close> and in the worker of
  \<open>runAllModels\<close>: set \<open>WordCount\<close>, then \<open>Score\<close>.\<close>

definition scoreResponse :: "ModelResponse \<Rightarrow> ModelResponse" where
  "scoreResponse response =
     (let response = response\<lparr>WordCount := int (length (Fields (Text_resp response)))\<rparr>
      in response\<lparr>Score_resp := calculateScore response\<rparr>)"

lemma go_quot_nonneg: "0 \<le> a \<Longrightarrow> go_quot a 10 = a div 10"
  by (cases "a = 0") (simp_all add: go_quot_def)

lemma Score_scoreResponse:
  "Score_resp (scoreResponse r) =
     (if Error_resp r \<noteq> None then 0
      else int (length (Citations_resp r)) * 10 +
           min (int (length (Fields (Text_resp r))) div 10) 50)"
  by (simp add: scoreResponse_def calculateScore_def Let_def go_quot_nonneg)

text \<open>
  C3. The heuristic score is 0 for a result with an error, and otherwise ten times the
  number of citations plus \<open>min (wordCount / 10) 50\<close>, \<open>wordCount\<close> being the number of
  white-space separated fields of the text; the word component is at most 50; and between
  two results of the same error status, more citations and more words never give a
  smaller score.
\<close>

theorem heuristic_score_formula_monotone:
  "Score_resp (scoreResponse r) =
     (if Error_resp r \<noteq> None then 0
      else int (length (Citations_resp r)) * 10 +
           min (int (length (Fields (Text_resp r))) div 10) 50) \<and>
   WordCount (scoreResponse r) = int (length (Fields (Text_resp r))) \<and>
   min (go_quot (WordCount (scoreResponse r)) 10) 50 \<le> 50 \<and>
   (\<forall>r'. (Error_resp r' = None \<longleftrightarrow> Error_resp r = None) \<and>
         length (Citations_resp r) \<le> length (Citations_resp r') \<and>
         length (Fields (Text_resp r)) \<le> length (Fields (Text_resp r')) \<longrightarrow>
         Score_resp (scoreResponse r) \<le> Score_resp (scoreResponse r'))"
proof -
  have mono: "Score_resp (scoreResponse r) \<le> Score_resp (scoreResponse r')"
    if e: "Error_resp r' = None \<longleftrightarrow> Error_resp r = None"
      and c: "length (Citations_resp r) \<le> length (Citations_resp r')"
      and w: "length (Fields (Text_resp r)) \<le> length (Fields (Text_resp r'))" for r'
  proof (cases "Error_resp r = None")
    case True
    then have e': "Error_resp r' = None"
      using e by metis
    have "int (length (Fields (Text_resp r))) div 10
        \<le> int (length (Fields (Text_resp r'))) div 10"
      using w by (intro zdiv_mono1) simp_all
    moreover have "int (length (Citations_resp r)) * 10
        \<le> int (length (Citations_resp r')) * 10"
      using c by simp
    ultimately show ?thesis
      unfolding Score_scoreResponse by (simp add: True e' min_def)
  next
    case False
    then have e': "Error_resp r' \<noteq> None"
      using e by metis
    show ?thesis
      unfolding Score_scoreResponse using False e' by simp
  qed
  have wc: "WordCount (scoreResponse r) = int (length (Fields (Text_resp r)))"
    by (simp add: scoreResponse_def Let_def)
  show ?thesis
  proof (intro conjI allI impI)
    show "Score_resp (scoreResponse r) =
       (if Error_resp r \<noteq> None then 0
        else int (length (Citations_resp r)) * 10 +
             min (int (length (Fields (Text_resp r))) div 10) 50)"
      by (rule Score_scoreResponse)
    show "WordCount (scoreResponse r) = int (length (Fields (Text_resp r)))"
      by (rule wc)
    show "min (go_quot (WordCount (scoreResponse r)) 10) 50 \<le> 50"
      by simp
  next
    fix r' :: ModelResponse
    assume "(Error_resp r' = None \<longleftrightarrow> Error_resp r = None) \<and>
         length (Citations_resp r) \<le> length (Citations_resp r') \<and>
         length (Fields (Text_resp r)) \<le> length (Fields (Text_resp r'))"
    then show "Score_resp (scoreResponse r) \<le> Score_resp (scoreResponse r')"
      using mono by metis
  qed
qed

theorem heuristic_score_formula_monotone_witness:
  "Score_resp (scoreResponse
      \<lparr>ModelName = ''nova'', Text_resp = ''Paris is the capital of France.'',
       Citations_resp = [], Duration_resp = 0, Error_resp = None, WordCount = 0,
       Score_resp = 0\<rparr>) = 0 \<and>
   Score_resp (scoreResponse
      \<lparr>ModelName = ''nova'', Text_resp = ''Paris is the capital of France.'',
       Citations_resp = [\<lparr>URL = ''https://a.example/1'', Domain = '''', Title = ''''\<rparr>],
       Duration_resp = 0, Error_resp = None, WordCount = 0, Score_resp = 0\<rparr>) = 10 \<and>
   Score_resp (scoreResponse
      \<lparr>ModelName = ''nova'', Text_resp = ''Paris is the capital of France.'',
       Citations_resp = [], Duration_resp = 0, Error_resp = None, WordCount = 0,
       Score_resp = 0\<rparr>)
   \<le> Score_resp (scoreResponse
      \<lparr>ModelName = ''nova'', Text_resp = ''Paris is the capital of France.'',
       Citations_resp = [\<lparr>URL = ''https://a.example/1'', Domain = '''', Title = ''''\<rparr>],
       Duration_resp = 0, Error_resp = None, WordCount = 0, Score_resp = 0\<rparr>)"
proof -
  define a where "a = \<lparr>ModelName = ''nova'', Text_resp = ''Paris is the capital of France.'',
       Citations_resp = [], Duration_resp = 0, Error_resp = None, WordCount = 0,
       Score_resp = 0\<rparr>"
  define b where "b = \<lparr>ModelName = ''nova'', Text_resp = ''Paris is the capital of France.'',
       Citations_resp = [\<lparr>URL = ''https://a.example/1'', Domain = '''', Title = ''''\<rparr>],
       Duration_resp = 0, Error_resp = None, WordCount = 0, Score_resp = 0\<rparr>"
  define t where "t = ''Paris is the capital of France.''"
  have n: "length (Fields t) = 6"
    unfolding t_def by code_simp
  have fa: "Text_resp a = t" "length (Citations_resp a) = 0" "Error_resp a = None"
    by (simp_all add: a_def t_def)
  have fb: "Text_resp b = t" "length (Citations_resp b) = 1" "Error_resp b = None"
    by (simp_all add: b_def t_def)
  have "(Error_resp b = None \<longleftrightarrow> Error_resp a = None) \<and>
         length (Citations_resp a) \<le> length (Citations_resp b) \<and>
         length (Fields (Text_resp a)) \<le> length (Fields (Text_resp b))"
    by (simp add: fa fb)
  with heuristic_score_formula_monotone [of a]
  have le: "Score_resp (scoreResponse a) \<le> Score_resp (scoreResponse b)"
    by metis
  have sa: "Score_resp (scoreResponse a) = 0"
    using heuristic_score_formula_monotone [of a] by (simp add: fa n)
  have sb: "Score_resp (scoreResponse b) = 10"
    using heuristic_score_formula_monotone [of b] by (simp add: fb n)
  show ?thesis
    unfolding a_def [symmetric] b_def [symmetric] using le sa sb by simp
qed

section \<open>LinkValidator (judge file, validateCitations)\<close>

text \<open>
  \<open>CitationCheck\<close>; its fields \<open>URL\<close> and \<open>Error\<close> carry the suffix \<open>_check\<close>. What
  \<open>client.Head\<close> returns is the environment's: \<open>HeadResponse\<close> holds the time the
  request took and either the message of the error or the status code of the response.
\<close>

record CitationCheck =
  URL_check :: string
  StatusCode :: int
  Healthy :: bool
  Latency :: int
  Error_check :: string

record HeadResponse =
  elapsed :: int
  outcome :: "string + int"

text \<open>The body of the goroutine started for one citation, up to its store into
  \<open>checks[idx]\<close>.\<close>

definition probe :: "HeadResponse \<Rightarrow> Citation \<Rightarrow> CitationCheck" where
  "probe resp citation =
     (let check = \<lparr>URL_check = URL citation, StatusCode = 0, Healthy = False, Latency = 0,
                    Error_check = ''''\<rparr>;
          check = check\<lparr>Latency := elapsed resp\<rparr>
      in case outcome resp of
           Inl err \<Rightarrow> check\<lparr>Error_check := err\<rparr>
         | Inr code \<Rightarrow> check\<lparr>StatusCode := code, Healthy := (200 \<le> code \<and> code < 400)\<rparr>)"

text \<open>\<open>make([]CitationCheck, len(citations))\<close> fills the slice with zero values.\<close>

definition zeroCheck :: CitationCheck where
  "zeroCheck = \<lparr>URL_check = '''', StatusCode = 0, Healthy = False, Latency = 0, Error_check = ''''\<rparr>"

text \<open>
  One goroutine per index stores its check into its own slot. \<open>head idx\<close> is the answer
  to the request of goroutine \<open>idx\<close>; \<open>sched\<close> is the order in which the stores
  happen before \<open>wg.Wait\<close> returns, a permutation of the indices. No goroutine exists
  for an index outside the slice.
\<close>

definition store_check ::
  "(nat \<Rightarrow> string \<Rightarrow> HeadResponse) \<Rightarrow> Citation list \<Rightarrow> CitationCheck list \<Rightarrow> nat \<Rightarrow> CitationCheck list" where
  "store_check head citations checks idx =
     (if idx < length citations
      then checks[idx := probe (head idx (URL (citations ! idx))) (citations ! idx)]
      else checks)"

definition validateCitations ::
  "(nat \<Rightarrow> string \<Rightarrow> HeadResponse) \<Rightarrow> nat list \<Rightarrow> Citation list \<Rightarrow> CitationCheck list" where
  "validateCitations head sched citations =
     foldl (store_check head citations) (replicate (length citations) zeroCheck) sched"

lemma length_store_check: "length (store_check head cs checks idx) = length checks"
  by (simp add: store_check_def)

lemma length_foldl_store:
  "length (foldl (store_check head cs) checks sched) = length checks"
  by (induction sched arbitrary: checks) (simp_all add: length_store_check)

lemma nth_store_check:
  "length checks = length cs \<Longrightarrow> i < length cs \<Longrightarrow>
   store_check head cs checks j ! i =
     (if i = j then probe (head i (URL (cs ! i))) (cs ! i) else checks ! i)"
  by (auto simp: store_check_def)

lemma nth_foldl_store:
  "length checks = length cs \<Longrightarrow> i < length cs \<Longrightarrow>
   foldl (store_check head cs) checks sched ! i =
     (if i \<in> set sched then probe (head i (URL (cs ! i))) (cs ! i) else checks ! i)"
proof (induction sched rule: rev_induct)
  case Nil
  then show ?case by simp
next
  case (snoc j sched)
  have "length (foldl (store_check head cs) checks sched) = length cs"
    using snoc.prems by (simp add: length_foldl_store)
  then show ?case
    using snoc by (simp add: nth_store_check)
qed

lemma URL_check_probe: "URL_check (probe resp c) = URL c"
  by (cases "outcome resp") (simp_all add: probe_def)

text \<open>
  C8. For a citation list of length k, whatever the network answers and in whatever order
  the goroutines finish, \<open>validateCitations\<close> returns k checks and the check at index
  \<open>i\<close> carries the URL of citation \<open>i\<close>.
\<close>

theorem validateCitations_aligned:
  assumes "mset sched = mset [0..<length L]"
  shows "length (validateCitations head sched L) = length L \<and>
         (\<forall>i<length L. URL_check (validateCitations head sched L ! i) = URL (L ! i))"
proof -
  have s: "set sched = {0..<length L}"
    using assms by (metis mset_eq_setD set_upt)
  have len: "length (validateCitations head sched L) = length L"
    by (simp add: validateCitations_def length_foldl_store)
  have "URL_check (validateCitations head sched L ! i) = URL (L ! i)" if "i < length L" for i
    unfolding validateCitations_def
    using that s by (subst nth_foldl_store) (simp_all add: URL_check_probe)
  with len show ?thesis by simp
qed

theorem validateCitations_aligned_witness:
  "mset [1, 0] = mset [0..<length [\<lparr>URL = ''u0'', Domain = '''', Title = ''''\<rparr>,
                                   \<lparr>URL = ''u1'', Domain = '''', Title = ''''\<rparr>]] \<and>
   length (validateCitations
      (\<lambda>i u. \<lparr>elapsed = 5, outcome = (if i = 0 then Inr 200 else Inl ''timeout'')\<rparr>) [1, 0]
      [\<lparr>URL = ''u0'', Domain = '''', Title = ''''\<rparr>,
       \<lparr>URL = ''u1'', Domain = '''', Title = ''''\<rparr>]) = 2 \<and>
   URL_check (validateCitations
      (\<lambda>i u. \<lparr>elapsed = 5, outcome = (if i = 0 then Inr 200 else Inl ''timeout'')\<rparr>) [1, 0]
      [\<lparr>URL = ''u0'', Domain = '''', Title = ''''\<rparr>,
       \<lparr>URL = ''u1'', Domain = '''', Title = ''''\<rparr>] ! 1) = ''u1''"
proof -
  define L where "L = [\<lparr>URL = ''u0'', Domain = '''', Title = ''''\<rparr>,
                       \<lparr>URL = ''u1'', Domain = '''', Title = ''''\<rparr>]"
  have len: "length L = 2" and u1: "URL (L ! 1) = ''u1''"
    by (simp_all add: L_def)
  have perm: "mset [1, 0] = mset [0..<length L]"
    by (simp add: len upt_rec)
  show ?thesis
    unfolding L_def [symmetric]
    using validateCitations_aligned [OF perm] perm len u1 by simp
qed

section \<open>float64 arithmetic\<close>

text \<open>
  A finite float64 is modelled by the rational it denotes, and every float64 operation by
  the exact operation followed by \<open>f64\<close>, rounding to the nearest number with a 53-bit
  significand, ties to even (IEEE 754 binary64, Go's float64). The exponent range is not
  limited: the values below are quotients of slice lengths and products of scores by
  weights, far from overflow and from the subnormal range. \<open>ilog2 x\<close> is the binary
  exponent of a positive \<open>x\<close>.
\<close>

definition ilog2 :: "rat \<Rightarrow> int" where
  "ilog2 x = (if 1 \<le> x then bitlen \<lfloor>x\<rfloor> - 1 else - bitlen (\<lceil>1 / x\<rceil> - 1))"

definition round_even :: "rat \<Rightarrow> int" where
  "round_even x =
     (let f = \<lfloor>x\<rfloor>; d = x - of_int f
      in if d < 1 / 2 then f else if 1 / 2 < d then f + 1 else if even f then f else f + 1)"

definition f64 :: "rat \<Rightarrow> rat" where
  "f64 x =
     (if x = 0 then 0
      else let u = 2 powi (ilog2 \<bar>x\<bar> - 52) in of_int (round_even (x / u)) * u)"


lemma ilog2_bounds:
  assumes "0 < x"
  shows "2 powi (ilog2 x) \<le> x \<and> x < 2 powi (ilog2 x + 1)"
proof (cases "1 \<le> x")
  case True
  define m where "m = \<lfloor>x\<rfloor>"
  have m: "0 < m" using True by (simp add: m_def)
  have e: "ilog2 x = bitlen m - 1" using True by (simp add: ilog2_def m_def)
  have b1: "1 \<le> bitlen m" using m by (auto simp: bitlen_alt_def)
  from bitlen_bounds [OF m] have lo: "2 ^ nat (bitlen m - 1) \<le> m" and hi: "m < 2 ^ nat (bitlen m)"
    by auto
  have "(2::rat) powi (bitlen m - 1) = of_int (2 ^ nat (bitlen m - 1))"
    using b1 by (simp add: power_int_def)
  also have "\<dots> \<le> of_int m" using lo by (simp only: of_int_le_iff)
  also have "\<dots> \<le> x" by (simp add: m_def)
  finally have A: "2 powi (ilog2 x) \<le> x" by (simp add: e)
  have "m + 1 \<le> 2 ^ nat (bitlen m)" using hi by simp
  then have "(of_int (m + 1) :: rat) \<le> of_int (2 ^ nat (bitlen m))" by (simp only: of_int_le_iff)
  moreover have "x < of_int (m + 1)" unfolding m_def by linarith
  moreover have "(of_int (2 ^ nat (bitlen m)) :: rat) = 2 powi (bitlen m)"
    using b1 by (simp add: power_int_def)
  ultimately have "x < 2 powi (ilog2 x + 1)" by (simp add: e)
  with A show ?thesis by simp
next
  case False
  define y where "y = 1 / x"
  define m where "m = \<lceil>y\<rceil> - 1"
  have y1: "1 < y" using False assms by (simp add: y_def)
  have m: "0 < m" using y1 unfolding m_def by linarith
  have e: "ilog2 x = - bitlen m" using False by (simp add: ilog2_def m_def y_def)
  have b1: "1 \<le> bitlen m" using m by (auto simp: bitlen_alt_def)
  from bitlen_bounds [OF m] have lo: "2 ^ nat (bitlen m - 1) \<le> m" and hi: "m < 2 ^ nat (bitlen m)"
    by auto
  have my: "of_int m < y" "y \<le> of_int m + 1" unfolding m_def by linarith+
  have "(2::rat) ^ nat (bitlen m - 1) = of_int (2 ^ nat (bitlen m - 1))" by simp
  also have "\<dots> \<le> of_int m" using lo by (simp only: of_int_le_iff)
  finally have "(2::rat) ^ nat (bitlen m - 1) \<le> of_int m" .
  then have ylo: "(2::rat) ^ nat (bitlen m - 1) < y" using my by linarith
  have "m + 1 \<le> 2 ^ nat (bitlen m)" using hi by simp
  then have "(of_int (m + 1) :: rat) \<le> of_int (2 ^ nat (bitlen m))" by (simp only: of_int_le_iff)
  then have yhi: "y \<le> 2 ^ nat (bitlen m)" using my by simp
  have x: "x = 1 / y" using assms by (simp add: y_def)
  have p1: "(2::rat) powi (- bitlen m) = 1 / 2 ^ nat (bitlen m)"
    using b1 by (simp add: power_int_def field_simps)
  have p2: "(2::rat) powi (- bitlen m + 1) = 1 / 2 ^ nat (bitlen m - 1)"
    using b1 by (simp add: power_int_def field_simps)
  have r1: "1 / 2 ^ nat (bitlen m) \<le> x"
    unfolding x using yhi y1 by (simp add: field_simps)
  have r2: "x < 1 / 2 ^ nat (bitlen m - 1)"
    unfolding x using ylo y1 by (simp add: field_simps)
  have "2 powi (ilog2 x) \<le> x" using r1 by (simp only: e p1)
  moreover have "ilog2 x + 1 = - bitlen m + 1" by (simp add: e)
  then have "x < 2 powi (ilog2 x + 1)" using r2 by (simp only: p2)
  ultimately show ?thesis by simp
qed


lemma round_even_of_int: "round_even (of_int n) = n"
  by (simp add: round_even_def)

lemma round_even_floor: "\<lfloor>x\<rfloor> \<le> round_even x \<and> round_even x \<le> \<lfloor>x\<rfloor> + 1"
  by (simp add: round_even_def Let_def)

lemma round_even_mono:
  assumes "x \<le> y"
  shows "round_even x \<le> round_even y"
proof (cases "\<lfloor>x\<rfloor> = \<lfloor>y\<rfloor>")
  case True
  then have "x - of_int \<lfloor>x\<rfloor> \<le> y - of_int \<lfloor>y\<rfloor>"
    using assms by simp
  then show ?thesis
    using True by (auto simp: round_even_def Let_def)
next
  case False
  then have "\<lfloor>x\<rfloor> + 1 \<le> \<lfloor>y\<rfloor>"
    using floor_mono [OF assms] by linarith
  then show ?thesis
    using round_even_floor [of x] round_even_floor [of y] by linarith
qed

lemma f64_zero: "f64 0 = 0"
  by (simp add: f64_def)

lemma pow2_pos: "0 < (2::rat) powi e"
  by (simp add: zero_less_power_int)

lemma pow2_split: "(2::rat) powi e = 2 ^ 52 * 2 powi (e - 52)"
proof -
  have "(2::rat) powi e = 2 powi (52 + (e - 52))" by simp
  also have "\<dots> = 2 powi 52 * 2 powi (e - 52)" by (rule power_int_add) simp
  finally show ?thesis by simp
qed

lemma f64_pos_bounds:
  assumes "0 < x"
  shows "2 powi (ilog2 x) \<le> f64 x \<and> f64 x \<le> 2 powi (ilog2 x + 1)"
proof -
  define u where "u = (2::rat) powi (ilog2 x - 52)"
  have u: "0 < u" by (simp add: u_def pow2_pos)
  have f: "f64 x = of_int (round_even (x / u)) * u"
    using assms by (simp add: f64_def u_def Let_def)
  have lo: "2 powi (ilog2 x) = 2 ^ 52 * u"
    unfolding u_def by (rule pow2_split)
  have hi: "2 powi (ilog2 x + 1) = 2 ^ 53 * u"
    using pow2_split [of "ilog2 x + 1"] power_int_add [of "2::rat" "ilog2 x - 52" 1]
    by (simp add: u_def mult.commute)
  from ilog2_bounds [OF assms] have "2 ^ 52 * u \<le> x" "x < 2 ^ 53 * u"
    by (simp_all add: lo hi)
  then have "of_int (2 ^ 52) \<le> x / u" "x / u \<le> of_int (2 ^ 53)"
    using u by (simp_all add: field_simps)
  then have "round_even (of_int (2 ^ 52)) \<le> round_even (x / u)"
    "round_even (x / u) \<le> round_even (of_int (2 ^ 53))"
    by (simp_all only: round_even_mono)
  then have "2 ^ 52 \<le> round_even (x / u)" "round_even (x / u) \<le> 2 ^ 53"
    by (simp_all only: round_even_of_int)
  then have "(of_int (2 ^ 52) :: rat) \<le> of_int (round_even (x / u))"
    "(of_int (round_even (x / u)) :: rat) \<le> of_int (2 ^ 53)"
    by (simp_all only: of_int_le_iff)
  then have "2 ^ 52 * u \<le> of_int (round_even (x / u)) * u"
    "of_int (round_even (x / u)) * u \<le> 2 ^ 53 * u"
    using u by simp_all
  then show ?thesis by (simp only: f lo hi)
qed

lemma ilog2_mono:
  assumes "0 < x" "x \<le> y"
  shows "ilog2 x \<le> ilog2 y"
proof -
  have "0 < y" using assms by simp
  from ilog2_bounds [OF assms(1)] ilog2_bounds [OF this]
  have "(2::rat) powi (ilog2 x) < 2 powi (ilog2 y + 1)"
    using assms(2) by linarith
  then have "ilog2 x < ilog2 y + 1"
    using power_int_increasing [of "ilog2 y + 1" "ilog2 x" "2::rat"]
    by (cases "ilog2 x < ilog2 y + 1") auto
  then show ?thesis by simp
qed

lemma f64_mono_pos:
  assumes "0 < x" "x \<le> y"
  shows "f64 x \<le> f64 y"
proof (cases "ilog2 x = ilog2 y")
  case True
  define u where "u = (2::rat) powi (ilog2 x - 52)"
  have u: "0 < u" by (simp add: u_def pow2_pos)
  have "x / u \<le> y / u" using assms u by (simp add: divide_right_mono)
  then have "(of_int (round_even (x / u)) :: rat) \<le> of_int (round_even (y / u))"
    by (simp only: of_int_le_iff round_even_mono)
  then have "of_int (round_even (x / u)) * u \<le> of_int (round_even (y / u)) * u"
    using u by simp
  moreover have "f64 x = of_int (round_even (x / u)) * u"
    using assms by (simp add: f64_def u_def Let_def)
  moreover have "f64 y = of_int (round_even (y / u)) * u"
    using assms True by (simp add: f64_def u_def Let_def)
  ultimately show ?thesis by simp
next
  case False
  have y: "0 < y" using assms by simp
  have "ilog2 x + 1 \<le> ilog2 y"
    using ilog2_mono [OF assms] False by simp
  then have "(2::rat) powi (ilog2 x + 1) \<le> 2 powi (ilog2 y)"
    by (intro power_int_increasing) simp_all
  then show ?thesis
    using f64_pos_bounds [OF assms(1)] f64_pos_bounds [OF y] by linarith
qed

lemma f64_mono:
  assumes "0 \<le> x" "x \<le> y"
  shows "f64 x \<le> f64 y"
proof (cases "x = 0")
  case True
  show ?thesis
  proof (cases "y = 0")
    case True
    with \<open>x = 0\<close> show ?thesis by simp
  next
    case False
    then have "0 < y" using assms by simp
    from f64_pos_bounds [OF this] pow2_pos [of "ilog2 y"] have "0 \<le> f64 y" by linarith
    with \<open>x = 0\<close> show ?thesis by (simp add: f64_zero)
  qed
next
  case False
  then have "0 < x" using assms by simp
  then show ?thesis using assms(2) by (rule f64_mono_pos)
qed


lemma f64_of_nat_exact:
  assumes "n < 2 ^ 53"
  shows "f64 (of_nat n) = of_nat n"
proof (cases "n = 0")
  case True
  then show ?thesis by (simp add: f64_zero)
next
  case False
  define x :: rat where "x = of_nat n"
  have x: "0 < x" using False by (simp add: x_def)
  define e where "e = ilog2 x"
  define k where "k = nat (52 - e)"
  have "(2::rat) powi e \<le> x" using ilog2_bounds [OF x] by (simp add: e_def)
  also have "x < 2 powi 53" using assms unfolding x_def
    by (metis of_nat_less_iff of_nat_numeral of_nat_power power_int_numeral)
  finally have "e < 53"
    using power_int_increasing [of 53 e "2::rat"] by (cases "e < 53") auto
  then have k: "e - 52 = - int k" by (simp add: k_def)
  define u where "u = (2::rat) powi (e - 52)"
  have u: "u = 1 / 2 ^ k" unfolding u_def k by (simp add: power_int_minus_divide)
  have "x / u = of_int (int n * 2 ^ k)" by (simp add: u x_def)
  then have "round_even (x / u) = int n * 2 ^ k" by (simp only: round_even_of_int)
  then have "of_int (round_even (x / u)) * u = x" by (simp add: u x_def)
  moreover have "f64 x = of_int (round_even (x / u)) * u"
    using x by (simp add: f64_def u_def e_def Let_def)
  ultimately show ?thesis by (simp add: x_def)
qed


section \<open>linkHealthScore (judge file)\<close>

text \<open>The conversion \<open>float64(i)\<close> rounds; \<open>int(x)\<close> truncates towards zero.\<close>

definition float64 :: "int \<Rightarrow> rat" where
  "float64 i = f64 (of_int i)"

definition go_int :: "rat \<Rightarrow> int" where
  "go_int x = (if 0 \<le> x then \<lfloor>x\<rfloor> else \<lceil>x\<rceil>)"

text \<open>The counting loop, then the function.\<close>

definition count_healthy :: "CitationCheck list \<Rightarrow> int" where
  "count_healthy checks = foldl (\<lambda>healthy c. if Healthy c then healthy + 1 else healthy) 0 checks"

definition linkHealthScore :: "CitationCheck list \<Rightarrow> int" where
  "linkHealthScore checks =
     (if length checks = 0 then 5
      else let healthy = count_healthy checks;
               pct = f64 (float64 healthy / float64 (int (length checks)));
               score = go_int (f64 (pct * 9)) + 1
           in if score > 10 then 10 else score)"

text \<open>
  Two tables of float64 facts, evaluated on the numerals. \<open>below k\<close> is a float64 a
  little under \<open>(k + 1) / 9\<close>: multiplied by 9 it still rounds to less than \<open>k + 1\<close>,
  and every quotient \<open>h / n < (k + 1) / 9\<close> with \<open>n \<le> 2 ^ 48\<close> lies at or below it.
  \<open>ninth_ok k\<close> says that \<open>k / 9\<close>, rounded, multiplied by 9 and rounded, is \<open>k\<close>.
\<close>

definition below :: "int \<Rightarrow> rat" where
  "below k = of_int (\<lceil>of_int (k + 1) * 2 ^ 53 / (9::rat)\<rceil> - 2) / 2 ^ 53"
definition below_ok :: "int \<Rightarrow> bool" where
  "below_ok k = (f64 (below k) = below k \<and> f64 (below k * 9) < of_int (k + 1) \<and>
      of_int (k + 1) / 9 - 1 / (9 * 2 ^ 48) \<le> below k)"
definition ninth_ok :: "int \<Rightarrow> bool" where
  "ninth_ok k = (f64 (f64 (of_int k / 9) * 9) = of_int k)"
lemma below_table:
  "below_ok 0 \<and> below_ok 1 \<and> below_ok 2 \<and> below_ok 3 \<and> below_ok 4 \<and> below_ok 5 \<and> below_ok 6 \<and> below_ok 7 \<and> below_ok 8"
  by code_simp
lemma ninth_table:
  "ninth_ok 0 \<and> ninth_ok 1 \<and> ninth_ok 2 \<and> ninth_ok 3 \<and> ninth_ok 4 \<and> ninth_ok 5 \<and> ninth_ok 6 \<and> ninth_ok 7 \<and> ninth_ok 8 \<and> ninth_ok 9"
  by code_simp

lemma foldl_count_healthy:
  "foldl (\<lambda>healthy c. if Healthy c then healthy + 1 else healthy) a checks =
     a + int (length (filter Healthy checks))"
  by (induction checks arbitrary: a) simp_all

lemma count_healthy_filter: "count_healthy checks = int (length (filter Healthy checks))"
  by (simp add: count_healthy_def foldl_count_healthy)

lemma f64_small: "f64 0 = 0" "f64 1 = 1" "f64 9 = 9"
  using f64_of_nat_exact [of 0] f64_of_nat_exact [of 1] f64_of_nat_exact [of 9] by simp_all

lemma f64_nonneg: "0 \<le> x \<Longrightarrow> 0 \<le> f64 x"
  using f64_mono [of 0 x] by (simp add: f64_small)

lemma float64_exact: "0 \<le> i \<Longrightarrow> i < 2 ^ 53 \<Longrightarrow> float64 i = of_int i"
  using f64_of_nat_exact [of "nat i"] by (simp add: float64_def nat_less_iff)

lemma float64_mono: "0 \<le> i \<Longrightarrow> i \<le> j \<Longrightarrow> float64 i \<le> float64 j"
  unfolding float64_def by (rule f64_mono) simp_all

text \<open>The arithmetic of \<open>linkHealthScore\<close> on \<open>healthy\<close> and \<open>len(checks)\<close>.\<close>

definition scaled :: "int \<Rightarrow> int \<Rightarrow> rat" where
  "scaled h n = f64 (f64 (float64 h / float64 n) * 9)"

lemma scaled_bounds:
  assumes "0 \<le> h" "h \<le> n" "0 < n"
  shows "0 \<le> scaled h n \<and> scaled h n \<le> 9"
proof -
  have n1: "1 \<le> float64 n"
    using float64_mono [of 1 n] assms float64_exact [of 1] by simp
  have h0: "0 \<le> float64 h"
    using float64_mono [of 0 h] assms float64_exact [of 0] by simp
  have hn: "float64 h \<le> float64 n"
    using assms by (intro float64_mono)
  define q where "q = float64 h / float64 n"
  have q: "0 \<le> q" "q \<le> 1"
    using n1 h0 hn by (simp_all add: q_def)
  have p: "0 \<le> f64 q" "f64 q \<le> 1"
    using f64_mono [of 0 q] f64_mono [of q 1] q by (simp_all add: f64_small)
  then have "0 \<le> f64 q * 9" "f64 q * 9 \<le> 9" by simp_all
  then have "0 \<le> f64 (f64 q * 9)" "f64 (f64 q * 9) \<le> 9"
    using f64_mono [of 0 "f64 q * 9"] f64_mono [of "f64 q * 9" 9] by (simp_all add: f64_small)
  then show ?thesis by (simp add: scaled_def q_def)
qed

lemma scaled_zero: "0 < n \<Longrightarrow> scaled 0 n = 0"
  by (simp add: scaled_def float64_def f64_small)

lemma scaled_full:
  assumes "0 < n"
  shows "scaled n n = 9"
proof -
  have "1 \<le> float64 n"
    using float64_mono [of 1 n] assms float64_exact [of 1] by simp
  then have "float64 n / float64 n = 1" by simp
  then show ?thesis by (simp add: scaled_def f64_small)
qed

lemma linkHealthScore_scaled:
  "checks \<noteq> [] \<Longrightarrow>
   linkHealthScore checks =
     min 10 (\<lfloor>scaled (int (length (filter Healthy checks))) (int (length checks))\<rfloor> + 1)"
proof -
  assume ne: "checks \<noteq> []"
  define h where "h = int (length (filter Healthy checks))"
  define n where "n = int (length checks)"
  have "0 \<le> h" "h \<le> n" "0 < n" using ne by (simp_all add: h_def n_def)
  from scaled_bounds [OF this] have "0 \<le> scaled h n" by simp
  then have g: "go_int (scaled h n) = \<lfloor>scaled h n\<rfloor>" by (simp add: go_int_def)
  define s where "s = \<lfloor>scaled h n\<rfloor> + 1"
  have "linkHealthScore checks = (if go_int (scaled h n) + 1 > 10 then 10 else go_int (scaled h n) + 1)"
    using ne by (simp add: linkHealthScore_def count_healthy_filter Let_def scaled_def h_def n_def)
  also have "\<dots> = (if s > 10 then 10 else s)" by (simp only: g s_def)
  also have "\<dots> = min 10 s" by (simp add: min_def)
  finally show ?thesis by (simp only: s_def h_def n_def)
qed


lemma ninth_ok_range: "0 \<le> k \<Longrightarrow> k \<le> 9 \<Longrightarrow> ninth_ok k"
proof -
  assume "0 \<le> k" "k \<le> 9"
  then have "k = 0 \<or> k = 1 \<or> k = 2 \<or> k = 3 \<or> k = 4 \<or> k = 5 \<or> k = 6 \<or> k = 7 \<or> k = 8 \<or> k = 9"
    by arith
  then show ?thesis using ninth_table by (elim disjE) simp_all
qed

lemma below_ok_range: "0 \<le> k \<Longrightarrow> k \<le> 8 \<Longrightarrow> below_ok k"
proof -
  assume "0 \<le> k" "k \<le> 8"
  then have "k = 0 \<or> k = 1 \<or> k = 2 \<or> k = 3 \<or> k = 4 \<or> k = 5 \<or> k = 6 \<or> k = 7 \<or> k = 8"
    by arith
  then show ?thesis using below_table by (elim disjE) simp_all
qed

lemma scaled_floor:
  assumes h: "0 \<le> h" "h \<le> n" and n: "0 < n" "n \<le> 2 ^ 48"
  shows "\<lfloor>scaled h n\<rfloor> = \<lfloor>(of_int h / of_int n :: rat) * 9\<rfloor>"
proof -
  define x :: rat where "x = of_int h / of_int n"
  define k where "k = \<lfloor>x * 9\<rfloor>"
  have x01: "0 \<le> x" "x \<le> 1" using h n by (simp_all add: x_def)
  have k09: "0 \<le> k" "k \<le> 9" using x01 unfolding k_def by (simp_all add: floor_le_iff le_floor_iff)
  have kx: "of_int k \<le> x * 9" "x * 9 < of_int k + 1" unfolding k_def by linarith+
  have "h < 2 ^ 53" "n < 2 ^ 53" using h n by simp_all
  then have ex: "float64 h = of_int h" "float64 n = of_int n"
    using h n by (simp_all add: float64_exact)
  have sc: "scaled h n = f64 (f64 x * 9)" by (simp add: scaled_def ex x_def)
  have lo: "of_int k \<le> scaled h n"
  proof -
    have "(of_int k :: rat) / 9 \<le> x" using kx by simp
    moreover have "(0::rat) \<le> of_int k / 9" using k09 by simp
    ultimately have "f64 (of_int k / 9) \<le> f64 x" by (intro f64_mono)
    then have "f64 (of_int k / 9) * 9 \<le> f64 x * 9" by simp
    moreover have "0 \<le> f64 (of_int k / 9) * 9" using k09 by (simp add: f64_nonneg)
    ultimately have "f64 (f64 (of_int k / 9) * 9) \<le> f64 (f64 x * 9)" by (intro f64_mono)
    moreover have "f64 (f64 (of_int k / 9) * 9) = of_int k"
      using ninth_ok_range [OF k09] by (simp add: ninth_ok_def)
    ultimately show ?thesis by (simp add: sc)
  qed
  have hi: "scaled h n < of_int k + 1"
  proof (cases "k = 9")
    case True
    then show ?thesis using scaled_bounds [OF h n(1)] by simp
  next
    case False
    then have k8: "k \<le> 8" using k09 by simp
    have b: "f64 (below k) = below k" "f64 (below k * 9) < of_int (k + 1)"
      "of_int (k + 1) / 9 - 1 / (9 * 2 ^ 48) \<le> below k"
      using below_ok_range [OF k09(1) k8] by (simp_all add: below_ok_def)
    have "(of_int h :: rat) * 9 < of_int (k + 1) * of_int n"
      using kx(2) n(1) by (simp add: x_def field_simps)
    then have "(of_int (h * 9) :: rat) < of_int ((k + 1) * n)" by simp
    then have "h * 9 < (k + 1) * n" by (simp only: of_int_less_iff)
    then have "h * 9 + 1 \<le> (k + 1) * n" by simp
    then have "(of_int (h * 9 + 1) :: rat) \<le> of_int ((k + 1) * n)" by (simp only: of_int_le_iff)
    then have "(of_int h :: rat) * 9 + 1 \<le> of_int (k + 1) * of_int n" by simp
    then have "x \<le> of_int (k + 1) / 9 - 1 / (9 * of_int n)"
      using n(1) by (simp add: x_def field_simps)
    moreover have "1 / (9 * 2 ^ 48) \<le> 1 / (9 * (of_int n :: rat))"
    proof -
      have "(of_int n :: rat) \<le> of_int (2 ^ 48)" using n(2) by (simp only: of_int_le_iff)
      then show ?thesis using n(1) by (simp add: field_simps)
    qed
    ultimately have "x \<le> below k" using b(3) by linarith
    then have "f64 x \<le> f64 (below k)" using x01 by (intro f64_mono)
    then have "f64 x * 9 \<le> below k * 9" by (simp add: b(1))
    moreover have "0 \<le> f64 x * 9" using x01 by (simp add: f64_nonneg)
    ultimately have "f64 (f64 x * 9) \<le> f64 (below k * 9)" by (intro f64_mono)
    then show ?thesis using b(2) by (simp add: sc)
  qed
  from lo hi have "\<lfloor>scaled h n\<rfloor> = k" by linarith
  then show ?thesis by (simp add: k_def x_def)
qed


lemma linkHealthScore_bounds:
  "1 \<le> linkHealthScore checks \<and> linkHealthScore checks \<le> 10"
proof (cases "checks = []")
  case True
  then show ?thesis by (simp add: linkHealthScore_def)
next
  case False
  define h where "h = int (length (filter Healthy checks))"
  define n where "n = int (length checks)"
  from False have "0 \<le> h" "h \<le> n" "0 < n" by (simp_all add: h_def n_def)
  from scaled_bounds [OF this] have "0 \<le> \<lfloor>scaled h n\<rfloor>" by simp
  then show ?thesis
    unfolding linkHealthScore_scaled [OF False] h_def n_def by simp
qed

text \<open>
  C2. \<open>linkHealthScore\<close> lies in [1,10] on every list; it is 5 on the empty list, 10 on
  a non-empty list whose checks are all healthy and 1 on a non-empty list with no healthy
  check; and on a non-empty list of at most \<open>2 ^ 48\<close> checks the float64 computation gives
  exactly \<open>min 10 (\<lfloor>(healthyCount / total) * 9\<rfloor> + 1)\<close> of the exact quotient. (A slice
  of \<open>CitationCheck\<close>, 56 bytes each, has fewer elements than that in the 48-bit address
  space of the platforms Go runs on; beyond \<open>2 ^ 53\<close> the conversions of the two counts
  to float64 round.)
\<close>

theorem linkHealthScore_range_formula:
  "1 \<le> linkHealthScore checks \<and> linkHealthScore checks \<le> 10 \<and>
   linkHealthScore [] = 5 \<and>
   (checks \<noteq> [] \<and> list_all Healthy checks \<longrightarrow> linkHealthScore checks = 10) \<and>
   (checks \<noteq> [] \<and> list_all (\<lambda>c. \<not> Healthy c) checks \<longrightarrow> linkHealthScore checks = 1) \<and>
   (checks \<noteq> [] \<and> length checks \<le> 2 ^ 48 \<longrightarrow>
      linkHealthScore checks =
        min 10 (\<lfloor>(of_nat (length (filter Healthy checks)) / of_nat (length checks) :: rat) * 9\<rfloor> + 1))"
proof -
  define h where "h = int (length (filter Healthy checks))"
  define n where "n = int (length checks)"
  have empty: "linkHealthScore [] = 5"
    by (simp add: linkHealthScore_def)
  have range: "1 \<le> linkHealthScore checks \<and> linkHealthScore checks \<le> 10"
    by (rule linkHealthScore_bounds)
  have full: "linkHealthScore checks = 10" if "checks \<noteq> []" "list_all Healthy checks"
  proof -
    have "filter Healthy checks = checks" using that(2) by (simp add: list_all_iff)
    then have "h = n" by (simp add: h_def n_def)
    moreover have "0 < n" using that(1) by (simp add: n_def)
    ultimately have "scaled h n = 9" by (simp add: scaled_full)
    then show ?thesis
      unfolding linkHealthScore_scaled [OF that(1)] h_def n_def by simp
  qed
  have none: "linkHealthScore checks = 1" if "checks \<noteq> []" "list_all (\<lambda>c. \<not> Healthy c) checks"
  proof -
    have "filter Healthy checks = []" using that(2) by (simp add: list_all_iff)
    then have "h = 0" by (simp add: h_def)
    moreover have "0 < n" using that(1) by (simp add: n_def)
    ultimately have "scaled h n = 0" by (simp add: scaled_zero)
    then show ?thesis
      unfolding linkHealthScore_scaled [OF that(1)] h_def n_def by simp
  qed
  have formula: "linkHealthScore checks =
        min 10 (\<lfloor>(of_nat (length (filter Healthy checks)) / of_nat (length checks) :: rat) * 9\<rfloor> + 1)"
    if "checks \<noteq> []" "length checks \<le> 2 ^ 48"
  proof -
    have "0 \<le> h" "h \<le> n" "0 < n" using that(1) by (simp_all add: h_def n_def)
    moreover have "n \<le> 2 ^ 48" using that(2) unfolding n_def
      by (metis of_nat_le_iff of_nat_numeral of_nat_power)
    ultimately have "\<lfloor>scaled h n\<rfloor> = \<lfloor>(of_int h / of_int n :: rat) * 9\<rfloor>"
      by (rule scaled_floor)
    then show ?thesis
      unfolding linkHealthScore_scaled [OF that(1)] by (simp add: h_def n_def)
  qed
  show ?thesis
    using range empty full none formula by (intro conjI impI) simp_all
qed

theorem linkHealthScore_range_formula_witness:
  "linkHealthScore
     [\<lparr>URL_check = ''a'', StatusCode = 200, Healthy = True, Latency = 9, Error_check = ''''\<rparr>] = 10 \<and>
   linkHealthScore
     [\<lparr>URL_check = ''b'', StatusCode = 404, Healthy = False, Latency = 9, Error_check = ''''\<rparr>] = 1 \<and>
   linkHealthScore
     [\<lparr>URL_check = ''a'', StatusCode = 200, Healthy = True, Latency = 9, Error_check = ''''\<rparr>,
      \<lparr>URL_check = ''b'', StatusCode = 404, Healthy = False, Latency = 9, Error_check = ''''\<rparr>,
      \<lparr>URL_check = ''c'', StatusCode = 0, Healthy = False, Latency = 9, Error_check = ''timeout''\<rparr>] = 4"
proof -
  define a where "a = \<lparr>URL_check = ''a'', StatusCode = 200, Healthy = True, Latency = 9, Error_check = ''''\<rparr>"
  define b where "b = \<lparr>URL_check = ''b'', StatusCode = 404, Healthy = False, Latency = 9, Error_check = ''''\<rparr>"
  define c where "c = \<lparr>URL_check = ''c'', StatusCode = 0, Healthy = False, Latency = 9, Error_check = ''timeout''\<rparr>"
  have hs: "Healthy a" "\<not> Healthy b" "\<not> Healthy c"
    by (simp_all add: a_def b_def c_def)
  have "linkHealthScore [a] = 10"
    using linkHealthScore_range_formula [of "[a]"] hs by simp
  moreover have "linkHealthScore [b] = 1"
    using linkHealthScore_range_formula [of "[b]"] hs by simp
  moreover have "linkHealthScore [a, b, c] = 4"
    using linkHealthScore_range_formula [of "[a, b, c]"] hs by simp
  ultimately show ?thesis
    unfolding a_def b_def c_def by simp
qed


section \<open>Orchestrator: ranking in run-all mode (main file, runAllModels)\<close>

text \<open>
  \<open>ModelResult\<close> is declared twice in the display code, once with the field \<open>Score\<close>
  (the heuristic score that \<open>runAllModels\<close> sets) and once with the field \<open>JudgeScore\<close>
  (the pointer that \<open>Judge\<close> sets); the record has both. The declaration of \<open>JudgeScore\<close>
  is not among the sources; its fields are those that \<open>Judge\<close> writes. \<open>Overall\<close> is a
  float64, \<open>JudgeScore\<close> a pointer (\<open>None\<close> is \<open>nil\<close>).
\<close>

record JudgeScore =
  Quality :: int
  LinkHealth :: int
  Recency :: int
  Significance :: int
  Impact :: int
  Overall :: rat
  Reasoning :: string

record ModelResult =
  Provider :: Provider
  Result :: Result
  Score :: int
  JudgeScore :: "JudgeScore option"

text \<open>\<open>calculateScore\<close> of the display code, the one that the worker of
  \<open>runAllModels\<close> calls on a \<open>Result\<close>.\<close>

definition calculateScore_Result :: "Result \<Rightarrow> int" where
  "calculateScore_Result r =
     (if Error r \<noteq> None then 0
      else let wordCount = int (length (Fields (Text r)));
               citationScore = int (length (Citations r)) * 10;
               wordScore = min (go_quot wordCount 10) 50
           in citationScore + wordScore)"

text \<open>
  The registry. Each provider file registers one provider in its \<open>init\<close>: four in all.
  \<open>Name\<close>, \<open>DisplayName\<close> and \<open>Emoji\<close> return constants (the emoji as its UTF-8 bytes).
  \<open>All\<close> returns the registered names in the order of \<open>sort.Strings\<close>, which on these
  four names is the list \<open>All_names\<close> (\<open>All_names_keys\<close>, \<open>All_names_sorted\<close>).
\<close>

definition ClaudeProvider :: Provider where
  "ClaudeProvider = \<lparr>Name = ''claude'', DisplayName = ''Claude 4.5 Sonnet'',
                      Emoji = [CHR 0xF0, CHR 0x9F, CHR 0x9F, CHR 0xA3]\<rparr>"

definition GeminiProvider :: Provider where
  "GeminiProvider = \<lparr>Name = ''gemini'', DisplayName = ''Gemini 3 Pro'',
                      Emoji = [CHR 0xF0, CHR 0x9F, CHR 0x94, CHR 0xB5]\<rparr>"

definition GrokProvider :: Provider where
  "GrokProvider = \<lparr>Name = ''grok'', DisplayName = ''Grok 4 (xAI)'',
                    Emoji = [CHR 0xE2, CHR 0x9A, CHR 0xAB]\<rparr>"

definition NovaProvider :: Provider where
  "NovaProvider = \<lparr>Name = ''nova'', DisplayName = ''Nova Premier (AWS)'',
                    Emoji = [CHR 0xF0, CHR 0x9F, CHR 0x9F, CHR 0xA0]\<rparr>"

definition Register :: "Provider \<Rightarrow> (string \<rightharpoonup> Provider) \<Rightarrow> (string \<rightharpoonup> Provider)" where
  "Register p registry = registry(Name p \<mapsto> p)"

definition providers :: "string \<rightharpoonup> Provider" where
  "providers = Register NovaProvider (Register GrokProvider (Register GeminiProvider
                 (Register ClaudeProvider Map.empty)))"

definition Get :: "string \<Rightarrow> Provider option" where
  "Get name = providers name"

definition All_names :: "string list" where
  "All_names = [''claude'', ''gemini'', ''grok'', ''nova'']"

text \<open>The order of Go strings, byte by byte, in which \<open>sort.Strings\<close> sorts.\<close>

fun string_le :: "string \<Rightarrow> string \<Rightarrow> bool" where
  "string_le [] t = True"
| "string_le (c # s) [] = False"
| "string_le (c # s) (d # t) = ((of_char c :: nat) < of_char d \<or> (c = d \<and> string_le s t))"

text \<open>
  One run of \<open>runAllModels\<close>. What the environment decides is a parameter: the outcome
  of each provider's \<open>CheckAuth\<close> (\<open>None\<close> is a nil error), the result of each provider's
  \<open>Query\<close>, and the order in which the workers send on the channel, as the list of their
  indices in \<open>available\<close>. Every worker sends once, so in a run of the program
  \<open>send_order\<close> is a permutation of the indices; an index out of range stands for no
  worker and is passed over.
\<close>

record Run =
  CheckAuth :: "Provider \<Rightarrow> string option"
  Query :: "Provider \<Rightarrow> Result"
  send_order :: "nat list"

text \<open>The pre-flight loop over \<open>All()\<close>. \<open>Get\<close> finds every name that \<open>All\<close> returns.\<close>

definition available :: "Run \<Rightarrow> Provider list" where
  "available run =
     concat (map (\<lambda>name. case Get name of
                           None \<Rightarrow> []
                         | Some p \<Rightarrow> if CheckAuth run p = None then [p] else [])
                 All_names)"

text \<open>The body of a worker, and the loop that appends what arrives on the channel.\<close>

definition worker :: "Run \<Rightarrow> Provider \<Rightarrow> ModelResult" where
  "worker run provider =
     (let r = Query run provider
      in \<lparr>Provider = provider, Result = r, Score = calculateScore_Result r, JudgeScore = None\<rparr>)"

definition collected :: "Run \<Rightarrow> ModelResult list" where
  "collected run =
     map (\<lambda>i. worker run (available run ! i))
       (filter (\<lambda>i. i < length (available run)) (send_order run))"

text \<open>The function given to \<open>sort.Slice\<close>, on the elements at the two indices.\<close>

definition score_less :: "ModelResult \<Rightarrow> ModelResult \<Rightarrow> bool" where
  "score_less a b = (Score a > Score b)"

text \<open>
  \<open>sort.Slice\<close> is the standard library's (Go 1.25 by \<open>go.mod\<close>): it calls
  \<open>pdqsort_func\<close>, which on a slice
  of at most 12 elements (\<open>maxInsertion\<close>) runs \<open>insertionSort_func\<close> and returns.
  That is the code below: for \<open>i\<close> from 1, the element at \<open>j = i\<close> is swapped with its
  left neighbour while it is less, \<open>j\<close> going down. On a longer slice the library sorts in
  another way, which is not modelled: \<open>sort_Slice\<close> is \<open>None\<close> there.
\<close>

fun insertion_inner :: "('a \<Rightarrow> 'a \<Rightarrow> bool) \<Rightarrow> 'a list \<Rightarrow> nat \<Rightarrow> 'a list" where
  "insertion_inner lessf data 0 = data"
| "insertion_inner lessf data (Suc j) =
     (if lessf (data ! Suc j) (data ! j)
      then insertion_inner lessf (data[Suc j := data ! j, j := data ! Suc j]) j
      else data)"

definition insertionSort_func :: "('a \<Rightarrow> 'a \<Rightarrow> bool) \<Rightarrow> 'a list \<Rightarrow> 'a list" where
  "insertionSort_func lessf data = foldl (insertion_inner lessf) data [1..<length data]"

definition sort_Slice :: "('a \<Rightarrow> 'a \<Rightarrow> bool) \<Rightarrow> 'a list \<Rightarrow> 'a list option" where
  "sort_Slice lessf data =
     (if length data \<le> 12 then Some (insertionSort_func lessf data) else None)"

text \<open>\<open>runAllModels\<close> up to the sort: it exits when no provider is available, and
  otherwise prints the ranked results.\<close>

datatype outcome = Exit | Ranked "ModelResult list"

definition runAllModels :: "Run \<Rightarrow> outcome option" where
  "runAllModels run =
     (if length (available run) = 0 then Some Exit
      else map_option Ranked (sort_Slice score_less (collected run)))"

text \<open>An example run: no key for Claude; Grok answers first, then Nova, then Gemini, which
  times out.\<close>

definition ex_run :: Run where
  "ex_run =
     \<lparr>CheckAuth = (\<lambda>p. if Name p = ''claude'' then Some ''ANTHROPIC_API_KEY not set'' else None),
      Query = (\<lambda>p. if Name p = ''nova''
                     then \<lparr>Text = ''Paris is the capital of France.'',
                           Citations = [\<lparr>URL = ''https://a.example'', Domain = ''a.example'', Title = ''A''\<rparr>],
                           Duration = 3, Tokens = \<lparr>Input = 10, Output = 6\<rparr>, Error = None\<rparr>
                     else if Name p = ''grok''
                     then \<lparr>Text = ''Paris.'', Citations = [], Duration = 1,
                           Tokens = \<lparr>Input = 10, Output = 1\<rparr>, Error = None\<rparr>
                     else \<lparr>Text = '''', Citations = [], Duration = 2,
                           Tokens = \<lparr>Input = 0, Output = 0\<rparr>, Error = Some ''timeout''\<rparr>),
      send_order = [1, 2, 0]\<rparr>"

subsection \<open>The insertion sort is stable\<close>

text \<open>Moving the element at \<open>j\<close> to the left is an insertion into the reversed prefix; so
  the sort by \<open>score_less\<close> is the library's stable \<open>sort_key\<close> seen from the other
  end.\<close>

fun insert_back :: "('a \<Rightarrow> 'a \<Rightarrow> bool) \<Rightarrow> 'a \<Rightarrow> 'a list \<Rightarrow> 'a list" where
  "insert_back lessf x [] = [x]"
| "insert_back lessf x (y # ys) = (if lessf x y then y # insert_back lessf x ys else x # y # ys)"

lemma insertion_inner_append:
  "insertion_inner lessf (P @ x # R) (length P) = rev (insert_back lessf x (rev P)) @ R"
proof (induction P arbitrary: R rule: rev_induct)
  case Nil
  then show ?case by simp
next
  case (snoc y P)
  have n1: "(P @ [y] @ x # R) ! Suc (length P) = x"
    by (simp add: nth_append)
  have n0: "(P @ [y] @ x # R) ! length P = y"
    by (simp add: nth_append)
  have sw: "(P @ [y] @ x # R)[Suc (length P) := y, length P := x] = P @ x # (y # R)"
    by (simp add: list_update_append)
  show ?case
  proof (cases "lessf x y")
    case True
    then show ?thesis
      using snoc.IH [of "y # R"] n0 n1 sw by simp
  next
    case False
    then show ?thesis using n0 n1 by simp
  qed
qed

lemma length_insert_back: "length (insert_back lessf x ys) = Suc (length ys)"
  by (induction ys) simp_all

lemma foldl_insertion_inner:
  "foldl (insertion_inner lessf) (P @ R) [length P..<length P + length R] =
     foldl (\<lambda>P x. rev (insert_back lessf x (rev P))) P R"
proof (induction R arbitrary: P)
  case Nil
  then show ?case by simp
next
  case (Cons x R)
  let ?P = "rev (insert_back lessf x (rev P))"
  have l: "length ?P = Suc (length P)" by (simp add: length_insert_back)
  have "[length P..<length P + length (x # R)] =
      length P # [Suc (length P)..<Suc (length P) + length R]"
    by (simp add: upt_conv_Cons del: upt_Suc)
  then have "[length P..<length P + length (x # R)] = length P # [length ?P..<length ?P + length R]"
    by (simp only: l)
  then show ?case
    using Cons.IH [of ?P] by (simp add: insertion_inner_append)
qed

lemma insertionSort_func_foldl:
  "insertionSort_func lessf data = foldl (\<lambda>P x. rev (insert_back lessf x (rev P))) [] data"
proof (cases data)
  case Nil
  then show ?thesis by (simp add: insertionSort_func_def)
next
  case (Cons x R)
  have "insertionSort_func lessf data =
      foldl (insertion_inner lessf) ([x] @ R) [length [x]..<length [x] + length R]"
    by (simp add: insertionSort_func_def Cons)
  also have "\<dots> = foldl (\<lambda>P x. rev (insert_back lessf x (rev P))) [x] R"
    by (rule foldl_insertion_inner)
  finally show ?thesis by (simp add: Cons)
qed

lemma insert_back_score: "insert_back score_less x ys = insort_key Score x ys"
  by (induction ys) (auto simp: score_less_def)

lemma rev_foldl_insert_back:
  "rev (foldl (\<lambda>P x. rev (insert_back score_less x (rev P))) P R) =
     foldr (insort_key Score) (rev R) (rev P)"
  by (induction R arbitrary: P) (simp_all add: insert_back_score)

lemma insertionSort_func_score:
  "insertionSort_func score_less data = rev (sort_key Score (rev data))"
proof -
  have "rev (insertionSort_func score_less data) = sort_key Score (rev data)"
    by (simp add: insertionSort_func_foldl rev_foldl_insert_back sort_key_def)
  then show ?thesis by (metis rev_rev_ident)
qed


lemma All_names_sorted: "sorted_wrt string_le All_names"
  by (simp add: All_names_def)

lemma All_names_keys: "set All_names = dom providers \<and> distinct All_names"
  by (auto simp: All_names_def providers_def Register_def ClaudeProvider_def GeminiProvider_def
      GrokProvider_def NovaProvider_def split: if_splits)

lemma available_filter:
  "available run =
     filter (\<lambda>p. CheckAuth run p = None) [ClaudeProvider, GeminiProvider, GrokProvider, NovaProvider]"
  by (simp add: available_def All_names_def Get_def providers_def Register_def ClaudeProvider_def
      GeminiProvider_def GrokProvider_def NovaProvider_def)

lemma length_available: "length (available run) \<le> 4"
proof -
  have "length (available run) \<le>
      length [ClaudeProvider, GeminiProvider, GrokProvider, NovaProvider]"
    unfolding available_filter by (rule length_filter_le)
  then show ?thesis by simp
qed

lemma send_order_in_range:
  assumes "mset (send_order run) = mset [0..<n]"
  shows "filter (\<lambda>i. i < n) (send_order run) = send_order run"
proof -
  have "set (send_order run) = set [0..<n]" using assms by (rule mset_eq_setD)
  then show ?thesis by (simp add: filter_id_conv)
qed

lemma collected_providers:
  assumes "mset (send_order run) = mset [0..<length (available run)]"
  shows "mset (map Provider (collected run)) = mset (available run)"
proof -
  have "map Provider (collected run) = map ((!) (available run)) (send_order run)"
    by (simp add: collected_def send_order_in_range [OF assms] worker_def Let_def o_def)
  then have "mset (map Provider (collected run)) =
      image_mset ((!) (available run)) (mset [0..<length (available run)])"
    using assms by simp
  also have "\<dots> = mset (map ((!) (available run)) [0..<length (available run)])"
    by simp
  also have "\<dots> = mset (available run)"
    by (simp only: map_nth)
  finally show ?thesis .
qed

lemma length_collected:
  assumes "mset (send_order run) = mset [0..<length (available run)]"
  shows "length (collected run) = length (available run)"
proof -
  have "length (collected run) = size (mset (map Provider (collected run)))" by simp
  also have "\<dots> = size (mset (available run))"
    by (simp only: collected_providers [OF assms])
  finally show ?thesis by simp
qed

lemma collected_score:
  "r \<in> set (collected run) \<Longrightarrow>
     Score r = calculateScore_Result (Result r) \<and> Result r = Query run (Provider r)"
  by (auto simp: collected_def worker_def Let_def)

lemma sorted_desc_rev_sort_key:
  "sorted_wrt (\<lambda>a b. f b \<le> f a) (rev (sort_key f xs))"
proof -
  have "sorted (map f (sort_key f xs))" by (rule sorted_sort_key)
  then have "sorted_wrt (\<lambda>a b. f a \<le> f b) (sort_key f xs)"
    by (simp add: sorted_map)
  then show ?thesis
    by (simp add: sorted_wrt_rev)
qed

lemma insertionSort_func_sorted:
  "sorted_wrt (\<lambda>a b. Score b \<le> Score a) (insertionSort_func score_less data)"
  by (simp only: insertionSort_func_score sorted_desc_rev_sort_key)

lemma insertionSort_func_mset:
  "mset (insertionSort_func score_less data) = mset data"
  by (simp add: insertionSort_func_score)

lemma insertionSort_func_stable:
  "filter (\<lambda>r. Score r = s) (insertionSort_func score_less data) = filter (\<lambda>r. Score r = s) data"
proof -
  have "filter (\<lambda>r. Score r = s) (insertionSort_func score_less data) =
      rev (filter (\<lambda>r. Score r = s) (sort_key Score (rev data)))"
    by (simp add: insertionSort_func_score rev_filter)
  also have "\<dots> = rev (filter (\<lambda>r. Score r = s) (rev data))"
    by (simp only: sort_key_stable)
  also have "\<dots> = filter (\<lambda>r. Score r = s) data"
    by (simp add: rev_filter)
  finally show ?thesis .
qed

lemma available_ex_run: "available ex_run = [GeminiProvider, GrokProvider, NovaProvider]"
  by (simp add: available_filter ex_run_def ClaudeProvider_def GeminiProvider_def
      GrokProvider_def NovaProvider_def)

lemma collected_ex_run:
  "collected ex_run =
     [worker ex_run GrokProvider, worker ex_run NovaProvider, worker ex_run GeminiProvider]"
  by (simp add: collected_def available_ex_run) (simp add: ex_run_def)

lemma scores_ex_run:
  "Score (worker ex_run GrokProvider) = 0"
  "Score (worker ex_run NovaProvider) = 10"
  "Score (worker ex_run GeminiProvider) = 0"
  by code_simp+

lemma runAllModels_ex_run:
  "runAllModels ex_run =
     Some (Ranked [worker ex_run NovaProvider, worker ex_run GrokProvider, worker ex_run GeminiProvider])"
proof -
  define g where "g = worker ex_run GrokProvider"
  define n where "n = worker ex_run NovaProvider"
  define m where "m = worker ex_run GeminiProvider"
  have sc: "Score g = 0" "Score n = 10" "Score m = 0"
    by (simp_all add: g_def n_def m_def scores_ex_run)
  have "insertionSort_func score_less [g, n, m] = [n, g, m]"
    by (simp add: insertionSort_func_def score_less_def sc upt_rec numeral_2_eq_2 numeral_3_eq_3)
  then show ?thesis
    by (simp add: runAllModels_def sort_Slice_def available_ex_run collected_ex_run g_def n_def m_def)
qed

text \<open>
  C1. In every run of the run-all mode, whatever the providers answer and in whatever
  order their results arrive: when no provider is available the program exits; otherwise
  the ranking holds exactly the collected results, one for each available provider, each
  with the heuristic score of its result; it is sorted by that score descending; and for
  every score, the results with that score stand in the order in which they arrived.
\<close>

theorem runAllModels_sorted_stable:
  assumes "mset (send_order run) = mset [0..<length (available run)]"
  shows "(available run = [] \<longrightarrow> runAllModels run = Some Exit) \<and>
         (available run \<noteq> [] \<longrightarrow>
            (\<exists>ranked. runAllModels run = Some (Ranked ranked) \<and>
               mset ranked = mset (collected run) \<and>
               mset (map Provider ranked) = mset (available run) \<and>
               (\<forall>r\<in>set ranked. Score r = calculateScore_Result (Result r)) \<and>
               sorted_wrt (\<lambda>a b. Score b \<le> Score a) ranked \<and>
               (\<forall>s. filter (\<lambda>r. Score r = s) ranked = filter (\<lambda>r. Score r = s) (collected run))))"
proof (intro conjI impI)
  assume "available run = []"
  then show "runAllModels run = Some Exit" by (simp add: runAllModels_def)
next
  assume ne: "available run \<noteq> []"
  let ?ranked = "insertionSort_func score_less (collected run)"
  have "length (collected run) \<le> 12"
    using length_collected [OF assms] length_available [of run] by simp
  then have run: "runAllModels run = Some (Ranked ?ranked)"
    using ne by (simp add: runAllModels_def sort_Slice_def)
  have m: "mset ?ranked = mset (collected run)" by (rule insertionSort_func_mset)
  have "mset (map Provider ?ranked) = image_mset Provider (mset (collected run))"
    by (simp add: m)
  then have p: "mset (map Provider ?ranked) = mset (available run)"
    using collected_providers [OF assms] by simp
  have "set ?ranked = set (collected run)" using m by (rule mset_eq_setD)
  then have c: "\<forall>r\<in>set ?ranked. Score r = calculateScore_Result (Result r)"
    using collected_score by metis
  have s: "sorted_wrt (\<lambda>a b. Score b \<le> Score a) ?ranked" by (rule insertionSort_func_sorted)
  have t: "\<forall>s. filter (\<lambda>r. Score r = s) ?ranked = filter (\<lambda>r. Score r = s) (collected run)"
    by (simp add: insertionSort_func_stable)
  show "\<exists>ranked. runAllModels run = Some (Ranked ranked) \<and>
               mset ranked = mset (collected run) \<and>
               mset (map Provider ranked) = mset (available run) \<and>
               (\<forall>r\<in>set ranked. Score r = calculateScore_Result (Result r)) \<and>
               sorted_wrt (\<lambda>a b. Score b \<le> Score a) ranked \<and>
               (\<forall>s. filter (\<lambda>r. Score r = s) ranked = filter (\<lambda>r. Score r = s) (collected run))"
    using run m p c s t by (intro exI [of _ ?ranked] conjI)
qed


theorem runAllModels_sorted_stable_witness:
  "mset (send_order ex_run) = mset [0..<length (available ex_run)] \<and>
   available ex_run \<noteq> [] \<and>
   (\<exists>ranked. runAllModels ex_run = Some (Ranked ranked) \<and>
      sorted_wrt (\<lambda>a b. Score b \<le> Score a) ranked \<and>
      (\<forall>s. filter (\<lambda>r. Score r = s) ranked = filter (\<lambda>r. Score r = s) (collected ex_run)))"
proof -
  have h: "mset (send_order ex_run) = mset [0..<length (available ex_run)]"
    by (simp add: available_ex_run) (simp add: ex_run_def)
  have ne: "available ex_run \<noteq> []" by (simp add: available_ex_run)
  show ?thesis
    using runAllModels_sorted_stable [OF h] h ne by blast
qed


section \<open>Judge (judge file)\<close>

text \<open>
  \<open>judgeEvaluation\<close> is what the scoring tool returns per model; its fields shared with
  \<open>JudgeScore\<close> carry the suffix \<open>_eval\<close>.
\<close>

record judgeEvaluation =
  Model :: string
  Quality_eval :: int
  Recency_eval :: int
  Significance_eval :: int
  Impact_eval :: int
  Reasoning_eval :: string

text \<open>
  A block of the message: the name \<open>block.AsToolUse().Name\<close> (empty for a block that is
  not a tool use) and what \<open>json.Unmarshal(tb.Input, &toolInput)\<close> makes of its input,
  the message of the error or the evaluations read.
\<close>

record ContentBlock =
  tool_name :: string
  tool_input :: "string + judgeEvaluation list"

text \<open>
  What \<open>Judge\<close> gets from outside during one call: the answer to the HEAD request of
  result \<open>i\<close>, citation \<open>j\<close>; for result \<open>i\<close> the order in which its probes store
  their checks; the order in which the validation goroutines take the mutex; the outcome
  of \<open>client.Messages.New\<close> (the message of the error or the content of the message);
  and, for the \<open>range\<close> over \<open>evalMap\<close> run for result \<open>i\<close>, the order in which Go
  visits the entries, as the list of their positions in \<open>evalMap\<close> (Go visits every entry
  once, so in a run of the program it is a permutation of the positions; a position out of
  range stands for no entry and is passed over). The prompt of \<open>buildJudgePrompt\<close> only
  decides which answer comes back; every statement below holds for each answer. Two
  things are fixed by the Go implementation and not by the sources: what
  \<open>strings.ToLower\<close> makes of a string that is not ASCII, and which products of the
  weighted sum the compiler fuses with the addition.
\<close>

record World =
  Head :: "nat \<Rightarrow> nat \<Rightarrow> string \<Rightarrow> HeadResponse"
  write_order :: "nat \<Rightarrow> nat list"
  lock_order :: "nat list"
  Messages_New :: "string + ContentBlock list"
  range_order :: "nat \<Rightarrow> nat list"
  Map_ToLower :: "string \<Rightarrow> string"
  fused :: "nat \<Rightarrow> bool"

text \<open>
  Phase 1. Each result without an error gets a goroutine that validates its citations and
  then, under the mutex, stores them in \<open>allChecks\<close> under the provider's name.
\<close>

definition collectChecks :: "World \<Rightarrow> ModelResult list \<Rightarrow> (string \<rightharpoonup> CitationCheck list)" where
  "collectChecks w results =
     foldl (\<lambda>allChecks i.
              if i < length results \<and> Error (Result (results ! i)) = None
              then allChecks(Name (Provider (results ! i)) \<mapsto>
                     validateCitations (Head w i) (write_order w i)
                       (Citations (Result (results ! i))))
              else allChecks)
       Map.empty (lock_order w)"

text \<open>Reading a Go map of slices: \<open>nil\<close> for a missing key.\<close>

definition checks_of :: "(string \<rightharpoonup> CitationCheck list) \<Rightarrow> string \<Rightarrow> CitationCheck list" where
  "checks_of allChecks name = (case allChecks name of None \<Rightarrow> [] | Some checks \<Rightarrow> checks)"

text \<open>
  Phase 2. The loop over \<open>message.Content\<close> stops at the first block named
  \<open>score_models\<close>; with none, \<open>toolInput\<close> keeps its zero value. \<open>judge_evaluations\<close>
  is the part of \<open>Judge\<close> from the API call to the test for no evaluations: the error
  it returns, or the evaluations.
\<close>

fun parse_tool_use :: "ContentBlock list \<Rightarrow> string + judgeEvaluation list" where
  "parse_tool_use [] = Inr []"
| "parse_tool_use (block # content) =
     (if tool_name block = ''score_models''
      then (case tool_input block of Inl err \<Rightarrow> Inl err | Inr evaluations \<Rightarrow> Inr evaluations)
      else parse_tool_use content)"

definition judge_evaluations :: "World \<Rightarrow> string + judgeEvaluation list" where
  "judge_evaluations w =
     (case Messages_New w of
        Inl err \<Rightarrow> Inl (''judge API error: '' @ err)
      | Inr content \<Rightarrow>
          (case parse_tool_use content of
             Inl err \<Rightarrow> Inl (''judge parse error: '' @ err)
           | Inr evaluations \<Rightarrow>
               if length evaluations = 0 then Inl ''judge returned no evaluations''
               else Inr evaluations))"

text \<open>
  Phase 3. \<open>evalMap\<close> is a Go map, here a list of pairs with distinct keys: a later
  evaluation with the same \<open>Model\<close> replaces the earlier one.
\<close>

definition build_evalMap :: "judgeEvaluation list \<Rightarrow> (string \<times> judgeEvaluation) list" where
  "build_evalMap evaluations = foldl (\<lambda>evalMap eval. AList.update (Model eval) eval evalMap) [] evaluations"

text \<open>
  \<open>strings.ToLower\<close> is the library's. On a string of ASCII bytes it adds 32 to the
  bytes from \<open>A\<close> to \<open>Z\<close>; on any other string it returns
  \<open>strings.Map(unicode.ToLower, s)\<close>, which goes by the Unicode tables: that function is
  the parameter \<open>Map_ToLower\<close> of the world. \<open>strings.Contains\<close> tells whether
  \<open>substr\<close> occurs in \<open>s\<close>.
\<close>

definition lower_byte :: "char \<Rightarrow> char" where
  "lower_byte c =
     (let n = of_char c :: nat in if 65 \<le> n \<and> n \<le> 90 then char_of (n + 32) else c)"

definition ToLower :: "World \<Rightarrow> string \<Rightarrow> string" where
  "ToLower w s =
     (if list_all (\<lambda>c. (of_char c :: nat) < 128) s then map lower_byte s else Map_ToLower w s)"

fun Contains :: "string \<Rightarrow> string \<Rightarrow> bool" where
  "Contains [] substr = (substr = [])"
| "Contains (c # s) substr = (prefix substr (c # s) \<or> Contains s substr)"

text \<open>The condition of the fuzzy match, the loop over the map (first hit wins, in the
  order Go visits the entries), and the whole lookup: display name first.\<close>

definition fuzzy_match :: "World \<Rightarrow> Provider \<Rightarrow> string \<Rightarrow> bool" where
  "fuzzy_match w p name =
     (Contains (ToLower w name) (ToLower w (Name p)) \<or>
      Contains (ToLower w (DisplayName p)) (ToLower w name))"

fun fuzzy_search :: "World \<Rightarrow> Provider \<Rightarrow> (string \<times> judgeEvaluation) list \<Rightarrow> judgeEvaluation option" where
  "fuzzy_search w p [] = None"
| "fuzzy_search w p ((name, e) # rest) =
     (if fuzzy_match w p name then Some e else fuzzy_search w p rest)"

definition visited :: "World \<Rightarrow> nat \<Rightarrow> (string \<times> judgeEvaluation) list \<Rightarrow> (string \<times> judgeEvaluation) list" where
  "visited w i evalMap =
     map (\<lambda>k. evalMap ! k) (filter (\<lambda>k. k < length evalMap) (range_order w i))"

definition find_eval ::
  "World \<Rightarrow> nat \<Rightarrow> Provider \<Rightarrow> (string \<times> judgeEvaluation) list \<Rightarrow> judgeEvaluation option" where
  "find_eval w i p evalMap =
     (case map_of evalMap (DisplayName p) of
        Some eval \<Rightarrow> Some eval
      | None \<Rightarrow> fuzzy_search w p (visited w i evalMap))"

text \<open>
  The five weights of the expression for \<open>overall\<close>, as the decimals written in the
  source. The expression is evaluated left to right in float64: the constants are rounded,
  the conversions \<open>float64(...)\<close> round, every sum is rounded. The Go specification lets
  an implementation fuse \<open>x * y + z\<close> into one operation that does not round the
  product; \<open>fused w k\<close> says whether the compiler did so for the product \<open>k\<close> (from 0).
  A fused operation takes one product, so of the two products of the first sum at most one
  is fused. With \<open>fused\<close> false everywhere every product is rounded.
\<close>

definition weight_Quality :: rat where
  "weight_Quality = 25 / 100"

definition weight_LinkHealth :: rat where
  "weight_LinkHealth = 15 / 100"

definition weight_Recency :: rat where
  "weight_Recency = 20 / 100"

definition weight_Significance :: rat where
  "weight_Significance = 20 / 100"

definition weight_Impact :: rat where
  "weight_Impact = 20 / 100"

definition weighted_term :: "bool \<Rightarrow> int \<Rightarrow> rat \<Rightarrow> rat" where
  "weighted_term fuse x weight =
     (if fuse then float64 x * f64 weight else f64 (float64 x * f64 weight))"

definition weighted_overall :: "(nat \<Rightarrow> bool) \<Rightarrow> int \<Rightarrow> int \<Rightarrow> int \<Rightarrow> int \<Rightarrow> int \<Rightarrow> rat" where
  "weighted_overall fuse quality lhScore recency significance impact =
     f64 (f64 (f64 (f64 (weighted_term (fuse 0) quality weight_Quality +
                         weighted_term (fuse 1 \<and> \<not> fuse 0) lhScore weight_LinkHealth) +
                    weighted_term (fuse 2) recency weight_Recency) +
               weighted_term (fuse 3) significance weight_Significance) +
          weighted_term (fuse 4) impact weight_Impact)"

text \<open>The body of the loop over \<open>results\<close> for index \<open>i\<close>, and the loop.\<close>

definition attach_score ::
  "World \<Rightarrow> (string \<rightharpoonup> CitationCheck list) \<Rightarrow> (string \<times> judgeEvaluation) list \<Rightarrow>
   nat \<Rightarrow> ModelResult \<Rightarrow> ModelResult" where
  "attach_score w allChecks evalMap i mr =
     (if Error (Result mr) \<noteq> None then mr
      else let p = Provider mr;
               lhScore = linkHealthScore (checks_of allChecks (Name p))
           in case find_eval w i p evalMap of
                Some eval \<Rightarrow>
                  mr\<lparr>JudgeScore := Some
                    \<lparr>Quality = Quality_eval eval, LinkHealth = lhScore,
                     Recency = Recency_eval eval, Significance = Significance_eval eval,
                     Impact = Impact_eval eval,
                     Overall = weighted_overall (fused w) (Quality_eval eval) lhScore
                                 (Recency_eval eval) (Significance_eval eval) (Impact_eval eval),
                     Reasoning = Reasoning_eval eval\<rparr>\<rparr>
              | None \<Rightarrow>
                  mr\<lparr>JudgeScore := Some
                    \<lparr>Quality = 0, LinkHealth = lhScore, Recency = 0, Significance = 0,
                     Impact = 0, Overall = float64 lhScore,
                     Reasoning = ''Judge did not return evaluation for this model''\<rparr>\<rparr>)"

definition attach_scores ::
  "World \<Rightarrow> (string \<rightharpoonup> CitationCheck list) \<Rightarrow> (string \<times> judgeEvaluation) list \<Rightarrow>
   ModelResult list \<Rightarrow> ModelResult list" where
  "attach_scores w allChecks evalMap results =
     map (\<lambda>(i, mr). attach_score w allChecks evalMap i mr) (enumerate 0 results)"

text \<open>
  \<open>sort.SliceStable\<close> with \<open>si > sj\<close>, a missing score counting 0: the stable sort by
  descending key, which is the stable insertion sort by the negated key.
\<close>

definition rank_key :: "ModelResult \<Rightarrow> rat" where
  "rank_key mr = (case JudgeScore mr of None \<Rightarrow> 0 | Some js \<Rightarrow> Overall js)"

definition sort_SliceStable_by_overall :: "ModelResult list \<Rightarrow> ModelResult list" where
  "sort_SliceStable_by_overall results = sort_key (\<lambda>mr. - rank_key mr) results"

text \<open>\<open>Judge\<close> returns the slice and the error.\<close>

definition Judge :: "World \<Rightarrow> ModelResult list \<Rightarrow> ModelResult list \<times> string option" where
  "Judge w results =
     (let allChecks = collectChecks w results;
          validCount = length (filter (\<lambda>mr. Error (Result mr) = None) results)
      in if validCount = 0 then (results, None)
         else case judge_evaluations w of
                Inl err \<Rightarrow> (results, Some err)
              | Inr evaluations \<Rightarrow>
                  (let evalMap = build_evalMap evaluations;
                       results = attach_scores w allChecks evalMap results
                   in (sort_SliceStable_by_overall results, None)))"


text \<open>A result is usable when it carries no error.\<close>

definition usable :: "ModelResult \<Rightarrow> bool" where
  "usable mr = (Error (Result mr) = None)"


text \<open>
  The scoring capability fails when the API call returns an error, when the input of the
  tool call does not parse, or when it holds no evaluation (also when the message has no
  \<open>score_models\<close> block).
\<close>

definition capability_failed :: "World \<Rightarrow> bool" where
  "capability_failed w =
     (case Messages_New w of
        Inl err \<Rightarrow> True
      | Inr content \<Rightarrow>
          (case parse_tool_use content of Inl err \<Rightarrow> True | Inr evaluations \<Rightarrow> evaluations = []))"


text \<open>A run used as the example below: Gemini timed out, Grok answered without
  citations, Nova with one; the judge scored Nova only. No product is fused, and every
  string is ASCII, so that \<open>Map_ToLower\<close> is not called.\<close>

definition ex_nova :: ModelResult where
  "ex_nova = \<lparr>Provider = NovaProvider,
     Result = \<lparr>Text = ''Paris is the capital of France.'',
                Citations = [\<lparr>URL = ''https://a.example/1'', Domain = ''a.example'', Title = ''''\<rparr>],
                Duration = 1200, Tokens = \<lparr>Input = 10, Output = 7\<rparr>, Error = None\<rparr>,
     Score = 10, JudgeScore = None\<rparr>"

definition ex_grok :: ModelResult where
  "ex_grok = \<lparr>Provider = GrokProvider,
     Result = \<lparr>Text = ''Paris.'', Citations = [], Duration = 900,
                Tokens = \<lparr>Input = 10, Output = 2\<rparr>, Error = None\<rparr>,
     Score = 0, JudgeScore = None\<rparr>"

definition ex_gemini :: ModelResult where
  "ex_gemini = \<lparr>Provider = GeminiProvider,
     Result = \<lparr>Text = '''', Citations = [], Duration = 5000,
                Tokens = \<lparr>Input = 0, Output = 0\<rparr>, Error = Some ''timeout''\<rparr>,
     Score = 0, JudgeScore = None\<rparr>"

definition ex_eval :: judgeEvaluation where
  "ex_eval = \<lparr>Model = ''Nova Premier'', Quality_eval = 7, Recency_eval = 8,
               Significance_eval = 6, Impact_eval = 5, Reasoning_eval = ''grounded''\<rparr>"

definition ex_world :: World where
  "ex_world = \<lparr>Head = (\<lambda>i j u. \<lparr>elapsed = 3, outcome = Inr 200\<rparr>),
      write_order = (\<lambda>i. if i = 2 then [0] else []),
      lock_order = [2, 1],
      Messages_New = Inr [\<lparr>tool_name = ''score_models'', tool_input = Inr [ex_eval]\<rparr>],
      range_order = (\<lambda>i. [0]),
      Map_ToLower = (\<lambda>s. s),
      fused = (\<lambda>k. False)\<rparr>"

definition ex_world_down :: World where
  "ex_world_down = ex_world\<lparr>Messages_New := Inl ''connection refused''\<rparr>"

text \<open>The same run with another answer of the judge: it scored Grok only, under its
  display name, 3 in every dimension.\<close>

definition ex_eval_grok :: judgeEvaluation where
  "ex_eval_grok = \<lparr>Model = ''Grok 4 (xAI)'', Quality_eval = 3, Recency_eval = 3,
                    Significance_eval = 3, Impact_eval = 3, Reasoning_eval = ''brief''\<rparr>"

definition ex_world_grok :: World where
  "ex_world_grok =
     ex_world\<lparr>Messages_New := Inr [\<lparr>tool_name = ''score_models'', tool_input = Inr [ex_eval_grok]\<rparr>]\<rparr>"

lemma Judge_none_usable:
  "list_all (\<lambda>mr. \<not> usable mr) results \<Longrightarrow> Judge w results = (results, None)"
  by (simp add: Judge_def Let_def usable_def list_all_iff filter_empty_conv)

lemma validCount_pos:
  "list_ex usable results \<Longrightarrow> length (filter (\<lambda>mr. Error (Result mr) = None) results) \<noteq> 0"
  by (auto simp: list_ex_iff usable_def filter_empty_conv)

lemma Judge_failed:
  "list_ex usable results \<Longrightarrow> judge_evaluations w = Inl err \<Longrightarrow>
   Judge w results = (results, Some err)"
  using validCount_pos [of results] by (simp add: Judge_def Let_def)

lemma Judge_scored:
  "list_ex usable results \<Longrightarrow> judge_evaluations w = Inr evaluations \<Longrightarrow>
   Judge w results =
     (sort_SliceStable_by_overall
        (attach_scores w (collectChecks w results) (build_evalMap evaluations) results), None)"
  using validCount_pos [of results] by (simp add: Judge_def Let_def)

lemma Judge_error_unchanged: "snd (Judge w results) \<noteq> None \<Longrightarrow> fst (Judge w results) = results"
  by (cases "judge_evaluations w") (auto simp: Judge_def Let_def split: if_splits)

lemma length_attach_scores: "length (attach_scores w allChecks evalMap results) = length results"
  by (simp add: attach_scores_def)

lemma nth_attach_scores:
  "i < length results \<Longrightarrow>
   attach_scores w allChecks evalMap results ! i = attach_score w allChecks evalMap i (results ! i)"
  by (simp add: attach_scores_def nth_enumerate_eq)

lemma set_sort_SliceStable: "set (sort_SliceStable_by_overall rs) = set rs"
  by (simp add: sort_SliceStable_by_overall_def)

lemma length_sort_SliceStable: "length (sort_SliceStable_by_overall rs) = length rs"
  by (simp add: sort_SliceStable_by_overall_def)

lemma attached_in_Judge:
  assumes "judge_evaluations w = Inr evaluations" "i < length results" "usable (results ! i)"
  shows "attach_score w (collectChecks w results) (build_evalMap evaluations) i (results ! i)
           \<in> set (fst (Judge w results)) \<and> snd (Judge w results) = None \<and>
         length (fst (Judge w results)) = length results"
proof -
  have ex: "list_ex usable results"
    using assms(2,3) by (auto simp: list_ex_iff)
  let ?as = "attach_scores w (collectChecks w results) (build_evalMap evaluations) results"
  have "?as ! i \<in> set ?as"
    using assms(2) by (intro nth_mem) (simp add: length_attach_scores)
  then show ?thesis
    using assms(2) by (simp add: Judge_scored [OF ex assms(1)] set_sort_SliceStable
        length_sort_SliceStable length_attach_scores nth_attach_scores)
qed

lemma attach_score_keeps:
  "Provider (attach_score w allChecks evalMap i mr) = Provider mr \<and>
   Result (attach_score w allChecks evalMap i mr) = Result mr \<and>
   Score (attach_score w allChecks evalMap i mr) = Score mr"
  by (simp add: attach_score_def Let_def split: option.splits)

lemma attach_score_unusable: "\<not> usable mr \<Longrightarrow> attach_score w allChecks evalMap i mr = mr"
  by (simp add: attach_score_def usable_def)

lemma attach_score_usable: "usable mr \<Longrightarrow> JudgeScore (attach_score w allChecks evalMap i mr) \<noteq> None"
  by (simp add: attach_score_def usable_def Let_def split: option.splits)


lemma keys_foldl_update:
  "fst ` set (foldl (\<lambda>evalMap eval. AList.update (Model eval) eval evalMap) al evaluations) =
     fst ` set al \<union> Model ` set evaluations"
  by (induction evaluations arbitrary: al) (auto simp: dom_update)

lemma keys_build_evalMap: "fst ` set (build_evalMap evaluations) = Model ` set evaluations"
  by (simp add: build_evalMap_def keys_foldl_update)
lemma set_AList_update:
  "x \<in> set (AList.update k v al) \<Longrightarrow> x \<in> set al \<or> x = (k, v)"
  by (induction al) (auto split: if_splits)

lemma build_evalMap_entry_foldl:
  "(k, e) \<in> set (foldl (\<lambda>evalMap eval. AList.update (Model eval) eval evalMap) al evaluations) \<Longrightarrow>
     (k, e) \<in> set al \<or> (k = Model e \<and> e \<in> set evaluations)"
proof (induction evaluations arbitrary: al)
  case Nil
  then show ?case by simp
next
  case (Cons x evaluations)
  from Cons.prems
  have "(k, e) \<in> set (foldl (\<lambda>evalMap eval. AList.update (Model eval) eval evalMap)
            (AList.update (Model x) x al) evaluations)"
    by simp
  then have "(k, e) \<in> set (AList.update (Model x) x al) \<or> (k = Model e \<and> e \<in> set evaluations)"
    by (rule Cons.IH)
  then show ?case
    using set_AList_update [of "(k, e)" "Model x" x al] by auto
qed

lemma build_evalMap_entry:
  "(k, e) \<in> set (build_evalMap evaluations) \<Longrightarrow> k = Model e \<and> e \<in> set evaluations"
  using build_evalMap_entry_foldl [of k e "[]" evaluations] by (simp add: build_evalMap_def)

lemma visited_subset: "set (visited w i evalMap) \<subseteq> set evalMap"
  by (auto simp: visited_def)

lemma fuzzy_search_None:
  "(\<forall>name \<in> fst ` set entries. \<not> fuzzy_match w p name) \<Longrightarrow> fuzzy_search w p entries = None"
  by (induction entries) auto

lemma fuzzy_search_Some:
  "fuzzy_search w p entries = Some e \<Longrightarrow> \<exists>name. (name, e) \<in> set entries \<and> fuzzy_match w p name"
  by (induction entries) (auto split: if_splits)

lemma find_eval_None:
  assumes "\<forall>e \<in> set evaluations. Model e \<noteq> DisplayName p \<and> \<not> fuzzy_match w p (Model e)"
  shows "find_eval w i p (build_evalMap evaluations) = None"
proof -
  have "DisplayName p \<notin> fst ` set (build_evalMap evaluations)"
    using assms unfolding keys_build_evalMap by auto
  then have m: "map_of (build_evalMap evaluations) (DisplayName p) = None"
    by (simp add: map_of_eq_None_iff)
  have "fst ` set (visited w i (build_evalMap evaluations)) \<subseteq> Model ` set evaluations"
    using visited_subset [of w i "build_evalMap evaluations"] keys_build_evalMap [of evaluations]
    by blast
  then have "\<forall>name \<in> fst ` set (visited w i (build_evalMap evaluations)). \<not> fuzzy_match w p name"
    using assms by auto
  then show ?thesis
    by (simp add: find_eval_def m fuzzy_search_None)
qed

lemma find_eval_Some:
  assumes "find_eval w i p (build_evalMap evaluations) = Some e"
  shows "e \<in> set evaluations \<and> (Model e = DisplayName p \<or> fuzzy_match w p (Model e))"
proof (cases "map_of (build_evalMap evaluations) (DisplayName p)")
  case None
  with assms have "fuzzy_search w p (visited w i (build_evalMap evaluations)) = Some e"
    by (simp add: find_eval_def)
  then obtain name where n: "(name, e) \<in> set (visited w i (build_evalMap evaluations))"
    and f: "fuzzy_match w p name"
    using fuzzy_search_Some by blast
  from n have "(name, e) \<in> set (build_evalMap evaluations)"
    using visited_subset by blast
  then have "name = Model e \<and> e \<in> set evaluations" by (rule build_evalMap_entry)
  with f show ?thesis by simp
next
  case (Some e')
  with assms have "e' = e" by (simp add: find_eval_def)
  with Some have "(DisplayName p, e) \<in> set (build_evalMap evaluations)"
    by (simp add: map_of_SomeD)
  then have "DisplayName p = Model e \<and> e \<in> set evaluations" by (rule build_evalMap_entry)
  then show ?thesis by simp
qed

lemma float64_linkHealthScore: "float64 (linkHealthScore checks) = of_int (linkHealthScore checks)"
  using linkHealthScore_bounds [of checks] by (intro float64_exact) simp_all


lemma capability_failed_iff: "capability_failed w \<longleftrightarrow> (\<exists>err. judge_evaluations w = Inl err)"
  by (auto simp: capability_failed_def judge_evaluations_def split: sum.splits)

lemma list_ex_usable: "list_ex (\<lambda>mr. Error (Result mr) = None) results = list_ex usable results"
  by (simp add: list_ex_iff usable_def)


text \<open>
  C7. If every input result carries an error, \<open>Judge\<close> returns the input list unchanged
  and no error, whatever the world would have answered.
\<close>

theorem Judge_all_errored_unchanged:
  "list_all (\<lambda>mr. Error (Result mr) \<noteq> None) results \<Longrightarrow> Judge w results = (results, None)"
  using Judge_none_usable [of results w] by (simp add: usable_def)

theorem Judge_all_errored_unchanged_witness:
  "list_all (\<lambda>mr. Error (Result mr) \<noteq> None) [ex_gemini, ex_gemini] \<and>
   Judge ex_world [ex_gemini, ex_gemini] = ([ex_gemini, ex_gemini], None)"
proof -
  have h: "list_all (\<lambda>mr. Error (Result mr) \<noteq> None) [ex_gemini, ex_gemini]"
    by (simp add: ex_gemini_def)
  from Judge_all_errored_unchanged [OF h] h show ?thesis by simp
qed

text \<open>
  C6. When at least one result is usable (otherwise the capability is not called) and the
  scoring capability fails, \<open>Judge\<close> returns an error together with the input list; and
  whenever \<open>Judge\<close> returns an error, the list it returns is the input list.
\<close>

theorem Judge_failure_returns_input:
  "(list_ex (\<lambda>mr. Error (Result mr) = None) results \<and> capability_failed w \<longrightarrow>
      snd (Judge w results) \<noteq> None \<and> fst (Judge w results) = results) \<and>
   (snd (Judge w results) \<noteq> None \<longrightarrow> fst (Judge w results) = results)"
proof (intro conjI impI)
  assume a: "list_ex (\<lambda>mr. Error (Result mr) = None) results \<and> capability_failed w"
  then obtain err where "judge_evaluations w = Inl err"
    by (auto simp: capability_failed_iff)
  with a have "Judge w results = (results, Some err)"
    by (simp add: Judge_failed list_ex_usable)
  then show "snd (Judge w results) \<noteq> None" "fst (Judge w results) = results"
    by simp_all
next
  assume "snd (Judge w results) \<noteq> None"
  then show "fst (Judge w results) = results" by (rule Judge_error_unchanged)
qed

theorem Judge_failure_returns_input_witness:
  "list_ex (\<lambda>mr. Error (Result mr) = None) [ex_gemini, ex_grok, ex_nova] \<and>
   capability_failed ex_world_down \<and>
   snd (Judge ex_world_down [ex_gemini, ex_grok, ex_nova]) \<noteq> None \<and>
   fst (Judge ex_world_down [ex_gemini, ex_grok, ex_nova]) = [ex_gemini, ex_grok, ex_nova]"
proof -
  have h: "list_ex (\<lambda>mr. Error (Result mr) = None) [ex_gemini, ex_grok, ex_nova]"
    by (simp add: ex_grok_def)
  have f: "capability_failed ex_world_down"
    by (simp add: capability_failed_def ex_world_down_def)
  have "snd (Judge ex_world_down [ex_gemini, ex_grok, ex_nova]) \<noteq> None \<and>
    fst (Judge ex_world_down [ex_gemini, ex_grok, ex_nova]) = [ex_gemini, ex_grok, ex_nova]"
    using Judge_failure_returns_input [of "[ex_gemini, ex_grok, ex_nova]" ex_world_down] h f
    by blast
  with h f show ?thesis by blast
qed


lemma Judge_ok_evaluations:
  assumes "snd (Judge w results) = None" "list_ex usable results"
  shows "\<exists>evaluations. judge_evaluations w = Inr evaluations"
proof (cases "judge_evaluations w")
  case (Inl err)
  with assms(2) have "Judge w results = (results, Some err)" by (rule_tac Judge_failed)
  with assms(1) show ?thesis by simp
next
  case (Inr evaluations)
  then show ?thesis by blast
qed

lemma map_attach_scores:
  "map (\<lambda>r. (Provider r, Result r, Score r)) (attach_scores w allChecks evalMap results) =
   map (\<lambda>r. (Provider r, Result r, Score r)) results"
  by (rule nth_equalityI)
    (simp_all add: length_attach_scores nth_attach_scores attach_score_keeps)

lemma mset_sort_SliceStable: "mset (sort_SliceStable_by_overall rs) = mset rs"
  by (simp add: sort_SliceStable_by_overall_def)


lemma collectChecks_own:
  assumes i: "i < length results" "Error (Result (results ! i)) = None"
    and own: "\<forall>j<length results. Error (Result (results ! j)) = None \<and>
                Name (Provider (results ! j)) = Name (Provider (results ! i)) \<longrightarrow> j = i"
    and sched: "i \<in> set (lock_order w)"
  shows "checks_of (collectChecks w results) (Name (Provider (results ! i))) =
           validateCitations (Head w i) (write_order w i) (Citations (Result (results ! i)))"
proof -
  define step where "step = (\<lambda>(allChecks :: string \<rightharpoonup> CitationCheck list) j.
              if j < length results \<and> Error (Result (results ! j)) = None
              then allChecks(Name (Provider (results ! j)) \<mapsto>
                     validateCitations (Head w j) (write_order w j)
                       (Citations (Result (results ! j))))
              else allChecks)"
  have "i \<in> set order \<Longrightarrow>
        foldl step m order (Name (Provider (results ! i))) =
          Some (validateCitations (Head w i) (write_order w i) (Citations (Result (results ! i))))"
    for order m
  proof (induction order rule: rev_induct)
    case Nil
    then show ?case by simp
  next
    case (snoc j order)
    show ?case
    proof (cases "j = i")
      case True
      then show ?thesis using i by (simp add: step_def)
    next
      case False
      then have "i \<in> set order" using snoc.prems by simp
      then have ih: "foldl step m order (Name (Provider (results ! i))) =
          Some (validateCitations (Head w i) (write_order w i) (Citations (Result (results ! i))))"
        by (rule snoc.IH)
      have "j < length results \<and> Error (Result (results ! j)) = None \<Longrightarrow>
            Name (Provider (results ! j)) \<noteq> Name (Provider (results ! i))"
        using own False by blast
      then show ?thesis using ih by (auto simp: step_def)
    qed
  qed
  from this [OF sched, of Map.empty] show ?thesis
    by (simp add: collectChecks_def checks_of_def step_def)
qed


subsection \<open>The weighted score against the exact weighted sum\<close>

text \<open>Rounding to float64 changes a value by at most the fraction \<open>2 ^ - 53\<close> of it.\<close>

lemma round_even_error: "\<bar>of_int (round_even x) - x\<bar> \<le> 1 / 2"
proof -
  define d where "d = x - of_int \<lfloor>x\<rfloor>"
  have d: "0 \<le> d" "d < 1" unfolding d_def by linarith+
  have x: "x = of_int \<lfloor>x\<rfloor> + d" by (simp add: d_def)
  show ?thesis
    using d unfolding round_even_def Let_def d_def [symmetric]
    by (subst (2) x, subst (4) x, subst (6) x) (auto simp: abs_if)
qed

lemma f64_error: "\<bar>f64 x - x\<bar> \<le> \<bar>x\<bar> / 2 ^ 53"
proof (cases "x = 0")
  case True
  then show ?thesis by (simp add: f64_zero)
next
  case False
  define a where "a = \<bar>x\<bar>"
  have a: "0 < a" using False by (simp add: a_def)
  define u where "u = (2::rat) powi (ilog2 a - 52)"
  have u: "0 < u" by (simp add: u_def pow2_pos)
  have f: "f64 x = of_int (round_even (x / u)) * u"
    using False by (simp add: f64_def u_def a_def Let_def)
  have "f64 x - x = (of_int (round_even (x / u)) - x / u) * u"
    using u by (simp add: f field_simps)
  then have "\<bar>f64 x - x\<bar> = \<bar>of_int (round_even (x / u)) - x / u\<bar> * u"
    using u by (simp add: abs_mult)
  also have "\<dots> \<le> (1 / 2) * u"
    using u round_even_error [of "x / u"] by (intro mult_right_mono) simp_all
  finally have e1: "\<bar>f64 x - x\<bar> \<le> u / 2" by simp
  have "2 ^ 52 * u \<le> a"
    using ilog2_bounds [OF a] pow2_split [of "ilog2 a"] by (simp add: u_def)
  then have "u / 2 \<le> a / 2 ^ 53" by simp
  with e1 show ?thesis by (simp add: a_def)
qed


text \<open>The unit roundoff of float64.\<close>

definition unit_roundoff :: rat where
  "unit_roundoff = 1 / 2 ^ 53"

lemma unit_roundoff_small: "0 < unit_roundoff" "unit_roundoff \<le> 1 / 1000"
  by (simp_all add: unit_roundoff_def)

lemma f64_roundoff: "\<bar>f64 x - x\<bar> \<le> \<bar>x\<bar> * unit_roundoff"
  using f64_error [of x] by (simp add: unit_roundoff_def)


lemma f64_close:
  assumes "\<bar>y - Y\<bar> \<le> c * unit_roundoff * B" "\<bar>Y\<bar> \<le> B" "0 \<le> c" "c \<le> 10"
  shows "\<bar>f64 y - Y\<bar> \<le> (c + 101 / 100) * unit_roundoff * B"
proof -
  note u = unit_roundoff_small
  define D where "D = unit_roundoff * B"
  have B: "0 \<le> B" using assms(2) by linarith
  have D: "0 \<le> D" using B u by (simp add: D_def)
  have cD: "0 \<le> c * D" using assms(3) D by simp
  have y: "\<bar>y - Y\<bar> \<le> c * D" using assms(1) by (simp add: D_def mult.assoc)
  have Du: "D * unit_roundoff \<le> D / 1000"
    using mult_left_mono [OF u(2) D] by simp
  have "c * (D * unit_roundoff) \<le> 10 * (D / 1000)"
    using assms(3,4) Du D u by (intro mult_mono) simp_all
  then have cDu: "(c * D) * unit_roundoff \<le> D / 100" by (simp add: mult.assoc)
  have "\<bar>y\<bar> \<le> B + c * D" using y assms(2) by linarith
  then have "\<bar>y\<bar> * unit_roundoff \<le> (B + c * D) * unit_roundoff"
    using u by (intro mult_right_mono) simp_all
  also have "\<dots> = D + (c * D) * unit_roundoff" by (simp add: D_def algebra_simps)
  finally have "\<bar>y\<bar> * unit_roundoff \<le> D + D / 100" using cDu by linarith
  with f64_roundoff [of y] have "\<bar>f64 y - y\<bar> \<le> D + D / 100" by linarith
  with y have "\<bar>f64 y - Y\<bar> \<le> c * D + (101 / 100) * D" by linarith
  then show ?thesis by (simp add: D_def algebra_simps)
qed

lemma weighted_term_error:
  assumes "0 \<le> weight"
  shows "\<bar>weighted_term fuse x weight - of_int x * weight\<bar> \<le>
           (302 / 100) * unit_roundoff * (\<bar>of_int x\<bar> * weight)"
proof -
  note u = unit_roundoff_small
  define X :: rat where "X = of_int x"
  define a where "a = f64 X"
  define c where "c = f64 weight"
  define A where "A = \<bar>X\<bar> * weight"
  define D where "D = unit_roundoff * A"
  have A: "0 \<le> A" using assms by (simp add: A_def)
  have D: "0 \<le> D" using A u by (simp add: D_def)
  have ea: "\<bar>a - X\<bar> \<le> \<bar>X\<bar> * unit_roundoff" unfolding a_def by (rule f64_roundoff)
  have "\<bar>c - weight\<bar> \<le> \<bar>weight\<bar> * unit_roundoff" unfolding c_def by (rule f64_roundoff)
  then have ec: "\<bar>c - weight\<bar> \<le> weight * unit_roundoff" using assms by simp
  have wu: "0 \<le> weight * unit_roundoff" using assms u by simp
  have cb: "\<bar>c\<bar> \<le> weight + weight * unit_roundoff" using ec assms by linarith
  have "\<bar>(a - X) * c\<bar> = \<bar>a - X\<bar> * \<bar>c\<bar>" by (simp add: abs_mult)
  also have "\<dots> \<le> (\<bar>X\<bar> * unit_roundoff) * (weight + weight * unit_roundoff)"
    using ea cb u by (intro mult_mono) simp_all
  also have "\<dots> = D + D * unit_roundoff" by (simp add: D_def A_def algebra_simps)
  finally have t1: "\<bar>(a - X) * c\<bar> \<le> D + D * unit_roundoff" .
  have "\<bar>X * (c - weight)\<bar> = \<bar>X\<bar> * \<bar>c - weight\<bar>" by (simp add: abs_mult)
  also have "\<dots> \<le> \<bar>X\<bar> * (weight * unit_roundoff)"
    using ec by (intro mult_left_mono) simp_all
  also have "\<dots> = D" by (simp add: D_def A_def algebra_simps)
  finally have t2: "\<bar>X * (c - weight)\<bar> \<le> D" .
  have Du: "D * unit_roundoff \<le> D / 100"
    using mult_left_mono [OF u(2) D] D by simp
  have "a * c - X * weight = (a - X) * c + X * (c - weight)" by (simp add: algebra_simps)
  then have "\<bar>a * c - X * weight\<bar> \<le> \<bar>(a - X) * c\<bar> + \<bar>X * (c - weight)\<bar>"
    by (simp add: abs_triangle_ineq)
  with t1 t2 Du have "\<bar>a * c - X * weight\<bar> \<le> (201 / 100) * D" by linarith
  then have raw: "\<bar>a * c - X * weight\<bar> \<le> (201 / 100) * unit_roundoff * A"
    by (simp add: D_def)
  have "\<bar>X * weight\<bar> \<le> A" using assms by (simp add: A_def abs_mult)
  with raw have "\<bar>f64 (a * c) - X * weight\<bar> \<le> (201 / 100 + 101 / 100) * unit_roundoff * A"
    by (rule f64_close) simp_all
  then have rounded: "\<bar>f64 (a * c) - X * weight\<bar> \<le> (302 / 100) * unit_roundoff * A" by simp
  have "(201 / 100) * D \<le> (302 / 100) * D" using D by simp
  then have "(201 / 100) * unit_roundoff * A \<le> (302 / 100) * unit_roundoff * A"
    by (simp add: D_def)
  with raw have exact: "\<bar>a * c - X * weight\<bar> \<le> (302 / 100) * unit_roundoff * A" by linarith
  show ?thesis
    using rounded exact
    by (simp add: weighted_term_def float64_def a_def c_def X_def A_def)
qed

lemma sum_error:
  assumes "\<bar>x - X\<bar> \<le> c * unit_roundoff * A" "\<bar>y - Y\<bar> \<le> d * unit_roundoff * B"
    and "\<bar>X\<bar> \<le> A" "\<bar>Y\<bar> \<le> B" "0 \<le> d" "d \<le> c" "c \<le> 10"
  shows "\<bar>f64 (x + y) - (X + Y)\<bar> \<le> (c + 101 / 100) * unit_roundoff * (A + B)"
proof -
  note u = unit_roundoff_small
  have B: "0 \<le> B" using assms(4) by linarith
  have uB: "0 \<le> unit_roundoff * B" using B u by simp
  have "d * (unit_roundoff * B) \<le> c * (unit_roundoff * B)"
    using assms(6) uB by (rule mult_right_mono)
  then have "\<bar>y - Y\<bar> \<le> c * (unit_roundoff * B)" using assms(2) by (simp add: mult.assoc)
  moreover have "\<bar>x - X\<bar> \<le> c * (unit_roundoff * A)" using assms(1) by (simp add: mult.assoc)
  ultimately have "\<bar>(x + y) - (X + Y)\<bar> \<le> c * (unit_roundoff * A) + c * (unit_roundoff * B)"
    by linarith
  then have e: "\<bar>(x + y) - (X + Y)\<bar> \<le> c * unit_roundoff * (A + B)"
    by (simp add: algebra_simps)
  have b: "\<bar>X + Y\<bar> \<le> A + B" using assms(3,4) by linarith
  have c0: "0 \<le> c" using assms(5,6) by linarith
  from e b c0 assms(7) show ?thesis by (rule f64_close)
qed

lemma weighted_overall_error:
  "\<bar>weighted_overall fuse q l r s i -
      (weight_Quality * of_int q + weight_LinkHealth * of_int l + weight_Recency * of_int r +
       weight_Significance * of_int s + weight_Impact * of_int i)\<bar> \<le>
   (weight_Quality * \<bar>of_int q\<bar> + weight_LinkHealth * \<bar>of_int l\<bar> + weight_Recency * \<bar>of_int r\<bar> +
    weight_Significance * \<bar>of_int s\<bar> + weight_Impact * \<bar>of_int i\<bar>) / 2 ^ 50"
proof -
  define p1 where "p1 = weighted_term (fuse 0) q weight_Quality"
  define p2 where "p2 = weighted_term (fuse 1 \<and> \<not> fuse 0) l weight_LinkHealth"
  define p3 where "p3 = weighted_term (fuse 2) r weight_Recency"
  define p4 where "p4 = weighted_term (fuse 3) s weight_Significance"
  define p5 where "p5 = weighted_term (fuse 4) i weight_Impact"
  define X1 :: rat where "X1 = of_int q * weight_Quality"
  define X2 :: rat where "X2 = of_int l * weight_LinkHealth"
  define X3 :: rat where "X3 = of_int r * weight_Recency"
  define X4 :: rat where "X4 = of_int s * weight_Significance"
  define X5 :: rat where "X5 = of_int i * weight_Impact"
  define A1 :: rat where "A1 = \<bar>of_int q\<bar> * weight_Quality"
  define A2 :: rat where "A2 = \<bar>of_int l\<bar> * weight_LinkHealth"
  define A3 :: rat where "A3 = \<bar>of_int r\<bar> * weight_Recency"
  define A4 :: rat where "A4 = \<bar>of_int s\<bar> * weight_Significance"
  define A5 :: rat where "A5 = \<bar>of_int i\<bar> * weight_Impact"
  have wp: "0 \<le> weight_Quality" "0 \<le> weight_LinkHealth" "0 \<le> weight_Recency"
    "0 \<le> weight_Significance" "0 \<le> weight_Impact"
    by (simp_all add: weight_Quality_def weight_LinkHealth_def weight_Recency_def
        weight_Significance_def weight_Impact_def)
  have t1: "\<bar>p1 - X1\<bar> \<le> (302 / 100) * unit_roundoff * A1"
    unfolding p1_def X1_def A1_def using wp(1) by (rule weighted_term_error)
  have t2: "\<bar>p2 - X2\<bar> \<le> (302 / 100) * unit_roundoff * A2"
    unfolding p2_def X2_def A2_def using wp(2) by (rule weighted_term_error)
  have t3: "\<bar>p3 - X3\<bar> \<le> (302 / 100) * unit_roundoff * A3"
    unfolding p3_def X3_def A3_def using wp(3) by (rule weighted_term_error)
  have t4: "\<bar>p4 - X4\<bar> \<le> (302 / 100) * unit_roundoff * A4"
    unfolding p4_def X4_def A4_def using wp(4) by (rule weighted_term_error)
  have t5: "\<bar>p5 - X5\<bar> \<le> (302 / 100) * unit_roundoff * A5"
    unfolding p5_def X5_def A5_def using wp(5) by (rule weighted_term_error)
  have b1: "\<bar>X1\<bar> \<le> A1" using wp(1) by (simp add: X1_def A1_def abs_mult)
  have b2: "\<bar>X2\<bar> \<le> A2" using wp(2) by (simp add: X2_def A2_def abs_mult)
  have b3: "\<bar>X3\<bar> \<le> A3" using wp(3) by (simp add: X3_def A3_def abs_mult)
  have b4: "\<bar>X4\<bar> \<le> A4" using wp(4) by (simp add: X4_def A4_def abs_mult)
  have b5: "\<bar>X5\<bar> \<le> A5" using wp(5) by (simp add: X5_def A5_def abs_mult)
  define s1 where "s1 = f64 (p1 + p2)"
  define s2 where "s2 = f64 (s1 + p3)"
  define s3 where "s3 = f64 (s2 + p4)"
  define s4 where "s4 = f64 (s3 + p5)"
  have "\<bar>s1 - (X1 + X2)\<bar> \<le> (302 / 100 + 101 / 100) * unit_roundoff * (A1 + A2)"
    unfolding s1_def using t1 t2 b1 b2 by (rule sum_error) simp_all
  then have e1: "\<bar>s1 - (X1 + X2)\<bar> \<le> (403 / 100) * unit_roundoff * (A1 + A2)" by simp
  have c1: "\<bar>X1 + X2\<bar> \<le> A1 + A2" using b1 b2 by linarith
  have "\<bar>s2 - (X1 + X2 + X3)\<bar> \<le> (403 / 100 + 101 / 100) * unit_roundoff * (A1 + A2 + A3)"
    unfolding s2_def using e1 t3 c1 b3 by (rule sum_error) simp_all
  then have e2: "\<bar>s2 - (X1 + X2 + X3)\<bar> \<le> (504 / 100) * unit_roundoff * (A1 + A2 + A3)" by simp
  have c2: "\<bar>X1 + X2 + X3\<bar> \<le> A1 + A2 + A3" using c1 b3 by linarith
  have "\<bar>s3 - (X1 + X2 + X3 + X4)\<bar> \<le>
      (504 / 100 + 101 / 100) * unit_roundoff * (A1 + A2 + A3 + A4)"
    unfolding s3_def using e2 t4 c2 b4 by (rule sum_error) simp_all
  then have e3: "\<bar>s3 - (X1 + X2 + X3 + X4)\<bar> \<le> (605 / 100) * unit_roundoff * (A1 + A2 + A3 + A4)"
    by simp
  have c3: "\<bar>X1 + X2 + X3 + X4\<bar> \<le> A1 + A2 + A3 + A4" using c2 b4 by linarith
  have "\<bar>s4 - (X1 + X2 + X3 + X4 + X5)\<bar> \<le>
      (605 / 100 + 101 / 100) * unit_roundoff * (A1 + A2 + A3 + A4 + A5)"
    unfolding s4_def using e3 t5 c3 b5 by (rule sum_error) simp_all
  then have e4: "\<bar>s4 - (X1 + X2 + X3 + X4 + X5)\<bar> \<le>
      (706 / 100) * unit_roundoff * (A1 + A2 + A3 + A4 + A5)"
    by simp
  define A where "A = A1 + A2 + A3 + A4 + A5"
  have A: "0 \<le> A" using b1 b2 b3 b4 b5 unfolding A_def by linarith
  have "0 \<le> unit_roundoff * A" using A unit_roundoff_small by simp
  then have "(706 / 100) * (unit_roundoff * A) \<le> 8 * (unit_roundoff * A)"
    by (intro mult_right_mono) simp_all
  also have "\<dots> = A / 2 ^ 50" by (simp add: unit_roundoff_def)
  finally have "(706 / 100) * unit_roundoff * A \<le> A / 2 ^ 50" by (simp add: mult.assoc)
  with e4 have "\<bar>s4 - (X1 + X2 + X3 + X4 + X5)\<bar> \<le> A / 2 ^ 50"
    unfolding A_def by linarith
  moreover have "weighted_overall fuse q l r s i = s4"
    by (simp add: weighted_overall_def s4_def s3_def s2_def s1_def p1_def p2_def p3_def p4_def p5_def)
  ultimately show ?thesis
    by (simp add: A_def X1_def X2_def X3_def X4_def X5_def A1_def A2_def A3_def A4_def A5_def
        mult.commute)
qed

lemma weights_sum: "weight_Quality + weight_LinkHealth + weight_Recency + weight_Significance + weight_Impact = 1"
  by (simp add: weight_Quality_def weight_LinkHealth_def weight_Recency_def
      weight_Significance_def weight_Impact_def)


subsection \<open>The scores that \<open>Judge\<close> attaches\<close>

lemma attach_score_fallback:
  assumes "usable mr" "find_eval w i (Provider mr) evalMap = None"
  shows "JudgeScore (attach_score w allChecks evalMap i mr) = Some
          \<lparr>Quality = 0, LinkHealth = linkHealthScore (checks_of allChecks (Name (Provider mr))),
           Recency = 0, Significance = 0, Impact = 0,
           Overall = of_int (linkHealthScore (checks_of allChecks (Name (Provider mr)))),
           Reasoning = ''Judge did not return evaluation for this model''\<rparr>"
  using assms by (simp add: attach_score_def usable_def Let_def float64_linkHealthScore)

lemma attach_score_matched:
  assumes "usable mr" "find_eval w i (Provider mr) evalMap = Some eval"
  shows "JudgeScore (attach_score w allChecks evalMap i mr) = Some
          \<lparr>Quality = Quality_eval eval,
           LinkHealth = linkHealthScore (checks_of allChecks (Name (Provider mr))),
           Recency = Recency_eval eval, Significance = Significance_eval eval,
           Impact = Impact_eval eval,
           Overall = weighted_overall (fused w) (Quality_eval eval)
                       (linkHealthScore (checks_of allChecks (Name (Provider mr))))
                       (Recency_eval eval) (Significance_eval eval) (Impact_eval eval),
           Reasoning = Reasoning_eval eval\<rparr>"
  using assms by (simp add: attach_score_def usable_def Let_def)

lemma weighted_overall_example:
  "weighted_overall fuse 3 5 3 3 3 = 7430939385161319 / 2251799813685248"
proof -
  have s1: "f64 (weighted_term b0 3 weight_Quality + weighted_term b1 5 weight_LinkHealth) = 3 / 2"
    for b0 b1
    by (induct b0; induct b1; code_simp)
  have s2: "f64 (3 / 2 + weighted_term b 3 weight_Recency) = 4728779608739021 / 2251799813685248"
    for b
    by (induct b; code_simp)
  have s3: "f64 (4728779608739021 / 2251799813685248 + weighted_term b 3 weight_Significance) =
      3039929748475085 / 1125899906842624"
    for b
    by (induct b; code_simp)
  have s4: "f64 (3039929748475085 / 1125899906842624 + weighted_term b 3 weight_Impact) =
      7430939385161319 / 2251799813685248"
    for b
    by (induct b; code_simp)
  show ?thesis by (simp only: weighted_overall_def s1 s2 s3 s4)
qed

text \<open>
  C10. When \<open>Judge\<close> returns no error and some input result is usable, evaluations came
  back, and the output has the input's length and the same providers, results and
  heuristic scores. Every output result without an error has a \<open>JudgeScore\<close> whose
  \<open>LinkHealth\<close> is the link health score of the checks stored under its provider's name,
  and which is of one of two kinds. Matched: some returned evaluation carries the
  provider's display name or matches it by the substring rule, the four judged dimensions
  and the reasoning are that evaluation's, and \<open>Overall\<close> is the weighted sum of the five
  scores up to the rounding of float64. Fallback: the four judged dimensions are 0,
  \<open>Overall\<close> is \<open>LinkHealth\<close>, and the reasoning is the fixed marker. Every output result
  with an error is an input result, unchanged, so without a \<open>JudgeScore\<close> when the input
  has none.
\<close>

theorem Judge_scores_usable_results:
  assumes "snd (Judge w results) = None"
    and "list_ex (\<lambda>mr. Error (Result mr) = None) results"
  shows "length (fst (Judge w results)) = length results \<and>
     mset (map (\<lambda>r. (Provider r, Result r, Score r)) (fst (Judge w results))) =
       mset (map (\<lambda>r. (Provider r, Result r, Score r)) results) \<and>
     (\<exists>evaluations. judge_evaluations w = Inr evaluations \<and>
        (\<forall>r \<in> set (fst (Judge w results)).
           (Error (Result r) = None \<longrightarrow>
              (\<exists>js. JudgeScore r = Some js \<and>
                 LinkHealth js =
                   linkHealthScore (checks_of (collectChecks w results) (Name (Provider r))) \<and>
                 ((\<exists>e \<in> set evaluations.
                     (Model e = DisplayName (Provider r) \<or> fuzzy_match w (Provider r) (Model e)) \<and>
                     Quality js = Quality_eval e \<and> Recency js = Recency_eval e \<and>
                     Significance js = Significance_eval e \<and> Impact js = Impact_eval e \<and>
                     Reasoning js = Reasoning_eval e \<and>
                     \<bar>Overall js -
                        (weight_Quality * of_int (Quality js) +
                         weight_LinkHealth * of_int (LinkHealth js) +
                         weight_Recency * of_int (Recency js) +
                         weight_Significance * of_int (Significance js) +
                         weight_Impact * of_int (Impact js))\<bar> \<le>
                     (weight_Quality * \<bar>of_int (Quality js)\<bar> +
                      weight_LinkHealth * \<bar>of_int (LinkHealth js)\<bar> +
                      weight_Recency * \<bar>of_int (Recency js)\<bar> +
                      weight_Significance * \<bar>of_int (Significance js)\<bar> +
                      weight_Impact * \<bar>of_int (Impact js)\<bar>) / 2 ^ 50) \<or>
                  (Quality js = 0 \<and> Recency js = 0 \<and> Significance js = 0 \<and> Impact js = 0 \<and>
                   Overall js = of_int (LinkHealth js) \<and>
                   Reasoning js = ''Judge did not return evaluation for this model'')))) \<and>
           (Error (Result r) \<noteq> None \<longrightarrow>
              r \<in> set results \<and>
              (list_all (\<lambda>mr. JudgeScore mr = None) results \<longrightarrow> JudgeScore r = None))))"
proof -
  have ex: "list_ex usable results" using assms(2) by (simp add: list_ex_usable)
  from Judge_ok_evaluations [OF assms(1) ex]
  obtain evaluations where ev: "judge_evaluations w = Inr evaluations" by blast
  define evalMap where "evalMap = build_evalMap evaluations"
  define att where "att = attach_scores w (collectChecks w results) evalMap results"
  define matched where "matched = (\<lambda>(r::ModelResult) (js::JudgeScore).
                  (\<exists>e \<in> set evaluations.
                     (Model e = DisplayName (Provider r) \<or> fuzzy_match w (Provider r) (Model e)) \<and>
                     Quality js = Quality_eval e \<and> Recency js = Recency_eval e \<and>
                     Significance js = Significance_eval e \<and> Impact js = Impact_eval e \<and>
                     Reasoning js = Reasoning_eval e \<and>
                     \<bar>Overall js -
                        (weight_Quality * of_int (Quality js) +
                         weight_LinkHealth * of_int (LinkHealth js) +
                         weight_Recency * of_int (Recency js) +
                         weight_Significance * of_int (Significance js) +
                         weight_Impact * of_int (Impact js))\<bar> \<le>
                     (weight_Quality * \<bar>of_int (Quality js)\<bar> +
                      weight_LinkHealth * \<bar>of_int (LinkHealth js)\<bar> +
                      weight_Recency * \<bar>of_int (Recency js)\<bar> +
                      weight_Significance * \<bar>of_int (Significance js)\<bar> +
                      weight_Impact * \<bar>of_int (Impact js)\<bar>) / 2 ^ 50))"
  define fallback where "fallback = (\<lambda>js::JudgeScore.
                  (Quality js = 0 \<and> Recency js = 0 \<and> Significance js = 0 \<and> Impact js = 0 \<and>
                   Overall js = of_int (LinkHealth js) \<and>
                   Reasoning js = ''Judge did not return evaluation for this model''))"
  define good where "good = (\<lambda>r::ModelResult.
           (Error (Result r) = None \<longrightarrow>
              (\<exists>js. JudgeScore r = Some js \<and>
                 LinkHealth js =
                   linkHealthScore (checks_of (collectChecks w results) (Name (Provider r))) \<and>
                 (matched r js \<or> fallback js))) \<and>
           (Error (Result r) \<noteq> None \<longrightarrow>
              r \<in> set results \<and>
              (list_all (\<lambda>mr. JudgeScore mr = None) results \<longrightarrow> JudgeScore r = None)))"
  have out: "fst (Judge w results) = sort_SliceStable_by_overall att"
    by (simp add: Judge_scored [OF ex ev] att_def evalMap_def)
  have len: "length (fst (Judge w results)) = length results"
    by (simp add: out length_sort_SliceStable att_def length_attach_scores)
  have "mset (map (\<lambda>r. (Provider r, Result r, Score r)) (fst (Judge w results))) =
      mset (map (\<lambda>r. (Provider r, Result r, Score r)) att)"
    by (simp add: out mset_sort_SliceStable)
  then have ms: "mset (map (\<lambda>r. (Provider r, Result r, Score r)) (fst (Judge w results))) =
      mset (map (\<lambda>r. (Provider r, Result r, Score r)) results)"
    by (simp only: att_def map_attach_scores)
  have el: "good r" if "r \<in> set (fst (Judge w results))" for r
  proof -
    from that have "r \<in> set att" by (simp add: out set_sort_SliceStable)
    then obtain i where i: "i < length results"
      and r: "r = attach_score w (collectChecks w results) evalMap i (results ! i)"
      unfolding att_def
      by (metis in_set_conv_nth length_attach_scores nth_attach_scores)
    have res: "Result r = Result (results ! i)" and prov: "Provider r = Provider (results ! i)"
      by (simp_all add: r attach_score_keeps)
    show ?thesis
    proof (cases "usable (results ! i)")
      case False
      then have eq: "r = results ! i" unfolding r by (rule attach_score_unusable)
      then have "r \<in> set results" using i by simp
      moreover have "Error (Result r) \<noteq> None" using False by (simp add: res usable_def)
      ultimately show ?thesis unfolding good_def by (auto simp: list_all_iff)
    next
      case True
      then have noerr: "Error (Result r) = None" by (simp add: res usable_def)
      define lh where "lh = linkHealthScore (checks_of (collectChecks w results) (Name (Provider r)))"
      have "\<exists>js. JudgeScore r = Some js \<and> LinkHealth js = lh \<and> (matched r js \<or> fallback js)"
      proof (cases "find_eval w i (Provider (results ! i)) evalMap")
        case None
        define js where "js = \<lparr>Quality = 0, LinkHealth = lh, Recency = 0, Significance = 0,
            Impact = 0, Overall = of_int lh,
            Reasoning = ''Judge did not return evaluation for this model''\<rparr>"
        have sc: "JudgeScore r = Some js"
          using attach_score_fallback [OF True None, of "collectChecks w results"]
          by (simp add: r js_def lh_def attach_score_keeps)
        have l: "LinkHealth js = lh" by (simp add: js_def)
        have "fallback js" by (simp add: fallback_def js_def)
        with sc l show ?thesis by metis
      next
        case (Some e)
        define js where "js = \<lparr>Quality = Quality_eval e, LinkHealth = lh,
            Recency = Recency_eval e, Significance = Significance_eval e, Impact = Impact_eval e,
            Overall = weighted_overall (fused w) (Quality_eval e) lh (Recency_eval e)
                        (Significance_eval e) (Impact_eval e),
            Reasoning = Reasoning_eval e\<rparr>"
        have sc: "JudgeScore r = Some js"
          using attach_score_matched [OF True Some, of "collectChecks w results"]
          by (simp add: r js_def lh_def attach_score_keeps)
        have "e \<in> set evaluations \<and>
            (Model e = DisplayName (Provider (results ! i)) \<or>
             fuzzy_match w (Provider (results ! i)) (Model e))"
          using Some unfolding evalMap_def by (rule find_eval_Some)
        then have m: "e \<in> set evaluations"
          "Model e = DisplayName (Provider r) \<or> fuzzy_match w (Provider r) (Model e)"
          by (simp_all add: prov)
        have f: "Quality js = Quality_eval e" "Recency js = Recency_eval e"
          "Significance js = Significance_eval e" "Impact js = Impact_eval e"
          "Reasoning js = Reasoning_eval e"
          by (simp_all add: js_def)
        have l: "LinkHealth js = lh" by (simp add: js_def)
        have "Overall js = weighted_overall (fused w) (Quality js) (LinkHealth js) (Recency js)
            (Significance js) (Impact js)"
          by (simp add: js_def)
        then have b: "\<bar>Overall js -
                        (weight_Quality * of_int (Quality js) +
                         weight_LinkHealth * of_int (LinkHealth js) +
                         weight_Recency * of_int (Recency js) +
                         weight_Significance * of_int (Significance js) +
                         weight_Impact * of_int (Impact js))\<bar> \<le>
                     (weight_Quality * \<bar>of_int (Quality js)\<bar> +
                      weight_LinkHealth * \<bar>of_int (LinkHealth js)\<bar> +
                      weight_Recency * \<bar>of_int (Recency js)\<bar> +
                      weight_Significance * \<bar>of_int (Significance js)\<bar> +
                      weight_Impact * \<bar>of_int (Impact js)\<bar>) / 2 ^ 50"
          by (simp only: weighted_overall_error)
        from m(1) m(2) f b have "matched r js"
          unfolding matched_def by (intro bexI [of _ e] conjI) assumption+
        with sc l show ?thesis by metis
      qed
      with noerr show ?thesis unfolding good_def lh_def by simp
    qed
  qed
  have all: "\<forall>r \<in> set (fst (Judge w results)). good r"
    by (intro ballI) (rule el)
  from len ms ev all show ?thesis
    unfolding good_def matched_def fallback_def
    by (intro conjI exI [of _ evaluations]) assumption+
qed


theorem Judge_scores_usable_results_witness:
  "snd (Judge ex_world [ex_gemini, ex_grok, ex_nova]) = None \<and>
   list_ex (\<lambda>mr. Error (Result mr) = None) [ex_gemini, ex_grok, ex_nova] \<and>
   length (fst (Judge ex_world [ex_gemini, ex_grok, ex_nova])) = 3 \<and>
   mset (map (\<lambda>r. (Provider r, Result r, Score r)) (fst (Judge ex_world [ex_gemini, ex_grok, ex_nova]))) =
     mset (map (\<lambda>r. (Provider r, Result r, Score r)) [ex_gemini, ex_grok, ex_nova]) \<and>
   (\<exists>evaluations. judge_evaluations ex_world = Inr evaluations)"
proof -
  have h: "list_ex (\<lambda>mr. Error (Result mr) = None) [ex_gemini, ex_grok, ex_nova]"
    by (simp add: ex_grok_def)
  have ev: "judge_evaluations ex_world = Inr [ex_eval]"
    by (simp add: judge_evaluations_def ex_world_def)
  have ok: "snd (Judge ex_world [ex_gemini, ex_grok, ex_nova]) = None"
    using h by (simp only: Judge_scored [OF _ ev] list_ex_usable snd_conv)
  from Judge_scores_usable_results [OF ok h] ok h ev show ?thesis by simp
qed

text \<open>
  C5. When evaluations came back and the provider of the usable result \<open>i\<close> matches none
  of them, by display name or by the substring rule, the output holds that provider's
  result with the fallback score: all four judged dimensions 0, \<open>LinkHealth\<close> and
  \<open>Overall\<close> the link health score of the checks stored under its name, and the fixed
  reasoning. This holds in whatever order the \<open>range\<close> visits the map and whatever
  \<open>strings.ToLower\<close> makes of strings beyond ASCII. With provider names distinct among the
  usable results and the provider's goroutine run, these checks are the validation of its
  own citations.
\<close>

theorem Judge_fallback_score:
  assumes "judge_evaluations w = Inr evaluations"
    and "i < length results" and "Error (Result (results ! i)) = None"
    and "\<forall>e \<in> set evaluations.
           Model e \<noteq> DisplayName (Provider (results ! i)) \<and>
           \<not> fuzzy_match w (Provider (results ! i)) (Model e)"
  shows "snd (Judge w results) = None \<and>
     length (fst (Judge w results)) = length results \<and>
     (\<exists>r \<in> set (fst (Judge w results)).
        Provider r = Provider (results ! i) \<and> Result r = Result (results ! i) \<and>
        Score r = Score (results ! i) \<and>
        JudgeScore r = Some
          \<lparr>Quality = 0,
           LinkHealth = linkHealthScore (checks_of (collectChecks w results) (Name (Provider (results ! i)))),
           Recency = 0, Significance = 0, Impact = 0,
           Overall = of_int (linkHealthScore (checks_of (collectChecks w results) (Name (Provider (results ! i))))),
           Reasoning = ''Judge did not return evaluation for this model''\<rparr>) \<and>
     (i \<in> set (lock_order w) \<and>
      (\<forall>j<length results. Error (Result (results ! j)) = None \<and>
          Name (Provider (results ! j)) = Name (Provider (results ! i)) \<longrightarrow> j = i) \<longrightarrow>
      checks_of (collectChecks w results) (Name (Provider (results ! i))) =
        validateCitations (Head w i) (write_order w i) (Citations (Result (results ! i))))"
proof -
  define r where
    "r = attach_score w (collectChecks w results) (build_evalMap evaluations) i (results ! i)"
  have us: "usable (results ! i)" using assms(3) by (simp add: usable_def)
  from attached_in_Judge [OF assms(1,2) us]
  have mem: "r \<in> set (fst (Judge w results))" and ok: "snd (Judge w results) = None"
    and len: "length (fst (Judge w results)) = length results"
    by (simp_all add: r_def)
  have none: "find_eval w i (Provider (results ! i)) (build_evalMap evaluations) = None"
    using assms(4) by (rule find_eval_None)
  have js: "JudgeScore r = Some
          \<lparr>Quality = 0,
           LinkHealth = linkHealthScore (checks_of (collectChecks w results) (Name (Provider (results ! i)))),
           Recency = 0, Significance = 0, Impact = 0,
           Overall = of_int (linkHealthScore (checks_of (collectChecks w results) (Name (Provider (results ! i))))),
           Reasoning = ''Judge did not return evaluation for this model''\<rparr>"
    unfolding r_def using us none by (rule attach_score_fallback)
  have keep: "Provider r = Provider (results ! i)" "Result r = Result (results ! i)"
    "Score r = Score (results ! i)"
    by (simp_all add: r_def attach_score_keeps)
  have own: "checks_of (collectChecks w results) (Name (Provider (results ! i))) =
        validateCitations (Head w i) (write_order w i) (Citations (Result (results ! i)))"
    if "i \<in> set (lock_order w) \<and>
      (\<forall>j<length results. Error (Result (results ! j)) = None \<and>
          Name (Provider (results ! j)) = Name (Provider (results ! i)) \<longrightarrow> j = i)"
    using that assms(2,3) by (intro collectChecks_own) simp_all
  from mem js keep have "\<exists>r \<in> set (fst (Judge w results)).
        Provider r = Provider (results ! i) \<and> Result r = Result (results ! i) \<and>
        Score r = Score (results ! i) \<and>
        JudgeScore r = Some
          \<lparr>Quality = 0,
           LinkHealth = linkHealthScore (checks_of (collectChecks w results) (Name (Provider (results ! i)))),
           Recency = 0, Significance = 0, Impact = 0,
           Overall = of_int (linkHealthScore (checks_of (collectChecks w results) (Name (Provider (results ! i))))),
           Reasoning = ''Judge did not return evaluation for this model''\<rparr>"
    by (intro bexI [of _ r]) simp_all
  with ok len own show ?thesis by (intro conjI impI) simp_all
qed

theorem Judge_fallback_score_witness:
  "judge_evaluations ex_world = Inr [ex_eval] \<and>
   Model ex_eval \<noteq> DisplayName GrokProvider \<and>
   \<not> fuzzy_match ex_world GrokProvider (Model ex_eval) \<and>
   snd (Judge ex_world [ex_gemini, ex_grok, ex_nova]) = None \<and>
   (\<exists>r \<in> set (fst (Judge ex_world [ex_gemini, ex_grok, ex_nova])).
      Provider r = GrokProvider \<and>
      JudgeScore r = Some
        \<lparr>Quality = 0, LinkHealth = 5, Recency = 0, Significance = 0, Impact = 0, Overall = 5,
         Reasoning = ''Judge did not return evaluation for this model''\<rparr>)"
proof -
  define rs where "rs = [ex_gemini, ex_grok, ex_nova]"
  have ev: "judge_evaluations ex_world = Inr [ex_eval]"
    by (simp add: judge_evaluations_def ex_world_def)
  have i: "1 < length rs" and at: "rs ! 1 = ex_grok"
    by (simp_all add: rs_def)
  have e: "Error (Result (rs ! 1)) = None"
    unfolding at by (simp add: ex_grok_def)
  have pr: "Provider (rs ! 1) = GrokProvider"
    unfolding at by (simp add: ex_grok_def)
  have nm: "Model ex_eval \<noteq> DisplayName GrokProvider \<and> \<not> fuzzy_match ex_world GrokProvider (Model ex_eval)"
    by code_simp
  then have nomatch: "\<forall>e \<in> set [ex_eval].
           Model e \<noteq> DisplayName (Provider (rs ! 1)) \<and> \<not> fuzzy_match ex_world (Provider (rs ! 1)) (Model e)"
    unfolding pr by simp
  have lock: "1 \<in> set (lock_order ex_world)"
    by (simp add: ex_world_def)
  have names: "Name (Provider (rs ! 0)) = ''gemini''" "Name (Provider (rs ! 1)) = ''grok''"
    "Name (Provider (rs ! 2)) = ''nova''"
    by (simp_all add: rs_def ex_gemini_def ex_grok_def ex_nova_def GeminiProvider_def
        GrokProvider_def NovaProvider_def)
  have err0: "Error (Result (rs ! 0)) \<noteq> None"
    by (simp add: rs_def ex_gemini_def)
  have own: "\<forall>j<length rs. Error (Result (rs ! j)) = None \<and>
          Name (Provider (rs ! j)) = Name (Provider (rs ! 1)) \<longrightarrow> j = 1"
  proof (intro allI impI)
    fix j assume j: "j < length rs"
      and a: "Error (Result (rs ! j)) = None \<and> Name (Provider (rs ! j)) = Name (Provider (rs ! 1))"
    from j have "j = 0 \<or> j = 1 \<or> j = 2" by (auto simp: rs_def)
    then show "j = 1" using a err0 names by auto
  qed
  have cit: "Citations (Result (rs ! 1)) = []"
    unfolding at by (simp add: ex_grok_def)
  have wo: "write_order ex_world 1 = []"
    by (simp add: ex_world_def)
  from Judge_fallback_score [OF ev i e nomatch]
  have ok: "snd (Judge ex_world rs) = None"
    and ex: "\<exists>r \<in> set (fst (Judge ex_world rs)).
        Provider r = Provider (rs ! 1) \<and> Result r = Result (rs ! 1) \<and>
        Score r = Score (rs ! 1) \<and>
        JudgeScore r = Some
          \<lparr>Quality = 0,
           LinkHealth = linkHealthScore (checks_of (collectChecks ex_world rs) (Name (Provider (rs ! 1)))),
           Recency = 0, Significance = 0, Impact = 0,
           Overall = of_int (linkHealthScore (checks_of (collectChecks ex_world rs) (Name (Provider (rs ! 1))))),
           Reasoning = ''Judge did not return evaluation for this model''\<rparr>"
    and chk: "checks_of (collectChecks ex_world rs) (Name (Provider (rs ! 1))) =
        validateCitations (Head ex_world 1) (write_order ex_world 1) (Citations (Result (rs ! 1)))"
    using lock own by blast+
  have "checks_of (collectChecks ex_world rs) (Name (Provider (rs ! 1))) = []"
    unfolding chk cit wo by (simp add: validateCitations_def)
  then have lh: "linkHealthScore (checks_of (collectChecks ex_world rs) (Name (Provider (rs ! 1)))) = 5"
    by (simp add: linkHealthScore_def)
  have "\<exists>r \<in> set (fst (Judge ex_world rs)).
      Provider r = GrokProvider \<and>
      JudgeScore r = Some
        \<lparr>Quality = 0, LinkHealth = 5, Recency = 0, Significance = 0, Impact = 0, Overall = 5,
         Reasoning = ''Judge did not return evaluation for this model''\<rparr>"
    using ex lh unfolding pr by auto
  with ev ok nm show ?thesis
    unfolding rs_def by simp
qed



text \<open>
  C4 as stated fails: the weighted sum is computed in float64, and its value is not always
  the weighted sum of the five scores. In the run below the judge gives Grok 3 in every
  dimension and its link health score is 5; the weighted sum is \<open>3.3\<close>, the attached
  \<open>Overall\<close> is the float64 above the one nearest to \<open>3.3\<close>. No product is fused in
  this run; by \<open>weighted_overall_example\<close> every other choice gives the same value.
\<close>

theorem Judge_overall_counterexample:
  "Judge ex_world_grok [ex_gemini, ex_grok, ex_nova] =
     ([ex_nova\<lparr>JudgeScore := Some
         \<lparr>Quality = 0, LinkHealth = 10, Recency = 0, Significance = 0, Impact = 0, Overall = 10,
          Reasoning = ''Judge did not return evaluation for this model''\<rparr>\<rparr>,
       ex_grok\<lparr>JudgeScore := Some
         \<lparr>Quality = 3, LinkHealth = 5, Recency = 3, Significance = 3, Impact = 3,
          Overall = 7430939385161319 / 2251799813685248, Reasoning = ''brief''\<rparr>\<rparr>,
       ex_gemini], None) \<and>
   weight_Quality * 3 + weight_LinkHealth * 5 + weight_Recency * 3 + weight_Significance * 3 +
     weight_Impact * 3 = 33 / 10 \<and>
   (7430939385161319 / 2251799813685248 :: rat) \<noteq> 33 / 10 \<and>
   f64 (33 / 10) = 7430939385161318 / 2251799813685248"
proof (intro conjI)
  show "Judge ex_world_grok [ex_gemini, ex_grok, ex_nova] =
     ([ex_nova\<lparr>JudgeScore := Some
         \<lparr>Quality = 0, LinkHealth = 10, Recency = 0, Significance = 0, Impact = 0, Overall = 10,
          Reasoning = ''Judge did not return evaluation for this model''\<rparr>\<rparr>,
       ex_grok\<lparr>JudgeScore := Some
         \<lparr>Quality = 3, LinkHealth = 5, Recency = 3, Significance = 3, Impact = 3,
          Overall = 7430939385161319 / 2251799813685248, Reasoning = ''brief''\<rparr>\<rparr>,
       ex_gemini], None)"
    by code_simp
  show "weight_Quality * 3 + weight_LinkHealth * 5 + weight_Recency * 3 + weight_Significance * 3 +
     weight_Impact * 3 = 33 / 10"
    by (simp add: weight_Quality_def weight_LinkHealth_def weight_Recency_def
        weight_Significance_def weight_Impact_def)
  show "(7430939385161319 / 2251799813685248 :: rat) \<noteq> 33 / 10" by simp
  show "f64 (33 / 10) = 7430939385161318 / 2251799813685248" by code_simp
qed

text \<open>
  C4 (as amended). When evaluations came back and the lookup for the usable result \<open>i\<close>
  finds the evaluation \<open>eval\<close>, that evaluation is one of those returned and matches the
  provider by display name or by the substring rule, and the output holds that provider's
  result with a \<open>JudgeScore\<close> whose four judged dimensions and reasoning are those of
  \<open>eval\<close>, whose \<open>LinkHealth\<close> is the link health score, and whose \<open>Overall\<close> differs
  from \<open>0.25 Quality + 0.15 LinkHealth + 0.20 Recency + 0.20 Significance + 0.20 Impact\<close>
  by at most the fraction \<open>2 ^ - 50\<close> of the same sum taken over the absolute values of
  the scores, whichever products the compiler fuses. The five weights sum to 1.
\<close>

theorem Judge_overall_weighted:
  assumes "judge_evaluations w = Inr evaluations"
    and "i < length results" and "Error (Result (results ! i)) = None"
    and "find_eval w i (Provider (results ! i)) (build_evalMap evaluations) = Some eval"
  shows "snd (Judge w results) = None \<and>
     eval \<in> set evaluations \<and>
     (Model eval = DisplayName (Provider (results ! i)) \<or>
      fuzzy_match w (Provider (results ! i)) (Model eval)) \<and>
     (\<exists>r \<in> set (fst (Judge w results)).
        Provider r = Provider (results ! i) \<and> Result r = Result (results ! i) \<and>
        (\<exists>js. JudgeScore r = Some js \<and>
           Quality js = Quality_eval eval \<and>
           LinkHealth js =
             linkHealthScore (checks_of (collectChecks w results) (Name (Provider (results ! i)))) \<and>
           Recency js = Recency_eval eval \<and> Significance js = Significance_eval eval \<and>
           Impact js = Impact_eval eval \<and> Reasoning js = Reasoning_eval eval \<and>
           \<bar>Overall js -
              (weight_Quality * of_int (Quality js) + weight_LinkHealth * of_int (LinkHealth js) +
               weight_Recency * of_int (Recency js) +
               weight_Significance * of_int (Significance js) +
               weight_Impact * of_int (Impact js))\<bar> \<le>
           (weight_Quality * \<bar>of_int (Quality js)\<bar> + weight_LinkHealth * \<bar>of_int (LinkHealth js)\<bar> +
            weight_Recency * \<bar>of_int (Recency js)\<bar> +
            weight_Significance * \<bar>of_int (Significance js)\<bar> +
            weight_Impact * \<bar>of_int (Impact js)\<bar>) / 2 ^ 50)) \<and>
     weight_Quality + weight_LinkHealth + weight_Recency + weight_Significance + weight_Impact = 1"
proof -
  define lh where
    "lh = linkHealthScore (checks_of (collectChecks w results) (Name (Provider (results ! i))))"
  define js where
    "js = \<lparr>Quality = Quality_eval eval, LinkHealth = lh, Recency = Recency_eval eval,
           Significance = Significance_eval eval, Impact = Impact_eval eval,
           Overall = weighted_overall (fused w) (Quality_eval eval) lh (Recency_eval eval)
                       (Significance_eval eval) (Impact_eval eval),
           Reasoning = Reasoning_eval eval\<rparr>"
  define r where
    "r = attach_score w (collectChecks w results) (build_evalMap evaluations) i (results ! i)"
  have us: "usable (results ! i)" using assms(3) by (simp add: usable_def)
  from attached_in_Judge [OF assms(1,2) us]
  have mem: "r \<in> set (fst (Judge w results))" and ok: "snd (Judge w results) = None"
    by (simp_all add: r_def)
  have m: "eval \<in> set evaluations \<and>
     (Model eval = DisplayName (Provider (results ! i)) \<or>
      fuzzy_match w (Provider (results ! i)) (Model eval))"
    using assms(4) by (rule find_eval_Some)
  have sc: "JudgeScore r = Some js"
    using attach_score_matched [OF us assms(4), of "collectChecks w results"]
    by (simp add: r_def js_def lh_def)
  have keep: "Provider r = Provider (results ! i)" "Result r = Result (results ! i)"
    by (simp_all add: r_def attach_score_keeps)
  have fields: "Quality js = Quality_eval eval" "LinkHealth js = lh"
    "Recency js = Recency_eval eval" "Significance js = Significance_eval eval"
    "Impact js = Impact_eval eval" "Reasoning js = Reasoning_eval eval"
    by (simp_all add: js_def)
  have "Overall js = weighted_overall (fused w) (Quality js) (LinkHealth js) (Recency js)
      (Significance js) (Impact js)"
    by (simp add: js_def)
  then have close: "\<bar>Overall js -
              (weight_Quality * of_int (Quality js) + weight_LinkHealth * of_int (LinkHealth js) +
               weight_Recency * of_int (Recency js) +
               weight_Significance * of_int (Significance js) +
               weight_Impact * of_int (Impact js))\<bar> \<le>
           (weight_Quality * \<bar>of_int (Quality js)\<bar> + weight_LinkHealth * \<bar>of_int (LinkHealth js)\<bar> +
            weight_Recency * \<bar>of_int (Recency js)\<bar> +
            weight_Significance * \<bar>of_int (Significance js)\<bar> +
            weight_Impact * \<bar>of_int (Impact js)\<bar>) / 2 ^ 50"
    by (simp only: weighted_overall_error)
  have "\<exists>js. JudgeScore r = Some js \<and>
           Quality js = Quality_eval eval \<and>
           LinkHealth js =
             linkHealthScore (checks_of (collectChecks w results) (Name (Provider (results ! i)))) \<and>
           Recency js = Recency_eval eval \<and> Significance js = Significance_eval eval \<and>
           Impact js = Impact_eval eval \<and> Reasoning js = Reasoning_eval eval \<and>
           \<bar>Overall js -
              (weight_Quality * of_int (Quality js) + weight_LinkHealth * of_int (LinkHealth js) +
               weight_Recency * of_int (Recency js) +
               weight_Significance * of_int (Significance js) +
               weight_Impact * of_int (Impact js))\<bar> \<le>
           (weight_Quality * \<bar>of_int (Quality js)\<bar> + weight_LinkHealth * \<bar>of_int (LinkHealth js)\<bar> +
            weight_Recency * \<bar>of_int (Recency js)\<bar> +
            weight_Significance * \<bar>of_int (Significance js)\<bar> +
            weight_Impact * \<bar>of_int (Impact js)\<bar>) / 2 ^ 50"
    using sc fields close unfolding lh_def [symmetric]
    by (intro exI [of _ js] conjI) assumption+
  with mem keep have "\<exists>r \<in> set (fst (Judge w results)).
        Provider r = Provider (results ! i) \<and> Result r = Result (results ! i) \<and>
        (\<exists>js. JudgeScore r = Some js \<and>
           Quality js = Quality_eval eval \<and>
           LinkHealth js =
             linkHealthScore (checks_of (collectChecks w results) (Name (Provider (results ! i)))) \<and>
           Recency js = Recency_eval eval \<and> Significance js = Significance_eval eval \<and>
           Impact js = Impact_eval eval \<and> Reasoning js = Reasoning_eval eval \<and>
           \<bar>Overall js -
              (weight_Quality * of_int (Quality js) + weight_LinkHealth * of_int (LinkHealth js) +
               weight_Recency * of_int (Recency js) +
               weight_Significance * of_int (Significance js) +
               weight_Impact * of_int (Impact js))\<bar> \<le>
           (weight_Quality * \<bar>of_int (Quality js)\<bar> + weight_LinkHealth * \<bar>of_int (LinkHealth js)\<bar> +
            weight_Recency * \<bar>of_int (Recency js)\<bar> +
            weight_Significance * \<bar>of_int (Significance js)\<bar> +
            weight_Impact * \<bar>of_int (Impact js)\<bar>) / 2 ^ 50)"
    by (intro bexI [of _ r] conjI) assumption+
  with ok m weights_sum show ?thesis
    by (intro conjI) (assumption | rule conjunct1 [OF m] conjunct2 [OF m])+
qed

theorem Judge_overall_weighted_witness:
  "judge_evaluations ex_world = Inr [ex_eval] \<and>
   find_eval ex_world 2 (Provider ([ex_gemini, ex_grok, ex_nova] ! 2)) (build_evalMap [ex_eval]) =
     Some ex_eval \<and>
   snd (Judge ex_world [ex_gemini, ex_grok, ex_nova]) = None \<and>
   (\<exists>r \<in> set (fst (Judge ex_world [ex_gemini, ex_grok, ex_nova])).
      Provider r = NovaProvider \<and>
      (\<exists>js. JudgeScore r = Some js \<and> Quality js = 7 \<and> Recency js = 8 \<and> Significance js = 6 \<and>
         Impact js = 5 \<and>
         \<bar>Overall js -
            (weight_Quality * 7 + weight_LinkHealth * of_int (LinkHealth js) + weight_Recency * 8 +
             weight_Significance * 6 + weight_Impact * 5)\<bar> \<le>
         (weight_Quality * 7 + weight_LinkHealth * \<bar>of_int (LinkHealth js)\<bar> + weight_Recency * 8 +
          weight_Significance * 6 + weight_Impact * 5) / 2 ^ 50))"
proof -
  define rs where "rs = [ex_gemini, ex_grok, ex_nova]"
  have ev: "judge_evaluations ex_world = Inr [ex_eval]"
    by (simp add: judge_evaluations_def ex_world_def)
  have i: "2 < length rs" and at: "rs ! 2 = ex_nova"
    by (simp_all add: rs_def)
  have e: "Error (Result (rs ! 2)) = None"
    unfolding at by (simp add: ex_nova_def)
  have pr: "Provider (rs ! 2) = NovaProvider"
    unfolding at by (simp add: ex_nova_def)
  have "find_eval ex_world 2 NovaProvider (build_evalMap [ex_eval]) = Some ex_eval"
    by code_simp
  then have f: "find_eval ex_world 2 (Provider (rs ! 2)) (build_evalMap [ex_eval]) = Some ex_eval"
    unfolding pr .
  have q: "Quality_eval ex_eval = 7" "Recency_eval ex_eval = 8" "Significance_eval ex_eval = 6"
    "Impact_eval ex_eval = 5"
    by (simp_all add: ex_eval_def)
  from Judge_overall_weighted [OF ev i e f]
  have ok: "snd (Judge ex_world rs) = None"
    and ex: "\<exists>r \<in> set (fst (Judge ex_world rs)).
      Provider r = NovaProvider \<and>
      (\<exists>js. JudgeScore r = Some js \<and> Quality js = 7 \<and> Recency js = 8 \<and> Significance js = 6 \<and>
         Impact js = 5 \<and>
         \<bar>Overall js -
            (weight_Quality * 7 + weight_LinkHealth * of_int (LinkHealth js) + weight_Recency * 8 +
             weight_Significance * 6 + weight_Impact * 5)\<bar> \<le>
         (weight_Quality * 7 + weight_LinkHealth * \<bar>of_int (LinkHealth js)\<bar> + weight_Recency * 8 +
          weight_Significance * 6 + weight_Impact * 5) / 2 ^ 50)"
    unfolding pr q by (simp, fastforce)
  from ev f ok ex show ?thesis
    unfolding rs_def by (intro conjI) assumption+
qed

end
